theory Spec2Isabelle
  imports Complex_Main "HOL-Library.AList"
begin

section \<open>Node model\<close>

text \<open>
  The module \<^verbatim>\<open>pyClarion/default/common.py\<close> imports its node model from
  \<^verbatim>\<open>pyClarion.base.nodes\<close>. It reads three things of it: a microfeature's
  \<^verbatim>\<open>dim()\<close>, a chunk's \<^verbatim>\<open>microfeatures\<close> (a set) and a chunk's
  \<^verbatim>\<open>dim2weight\<close> (a dict). Python floats are idealised as real numbers.
\<close>

datatype ('d, 'v) microfeature = Microfeature (dim: 'd) (val: 'v)

text \<open>
  Modelled from the spec: the class \<^verbatim>\<open>Chunk\<close> of \<^verbatim>\<open>pyClarion.base.nodes\<close>,
  an identity object owning a set of microfeatures and a mapping from dimension to
  weight. The set is the list of its members in the order the interpreter iterates
  them, the dict is an association list in insertion order, and \<open>ident\<close> stands for
  the object's identity.
\<close>

record ('d, 'v) chunk =
  ident :: nat
  microfeatures :: "('d, 'v) microfeature list"
  dim2weight :: "('d \<times> real) list"

datatype ('d, 'v) node =
  ChunkNode "('d, 'v) chunk"
| FeatureNode "('d, 'v) microfeature"

text \<open>
  Modelled from the spec: the invariant of a chunk (data model): its microfeatures
  form a set, its weight mapping is a dict (one entry per key), and every dimension
  of a microfeature has a weight.
\<close>

definition wf_chunk :: "('d, 'v) chunk \<Rightarrow> bool" where
  "wf_chunk c \<longleftrightarrow>
     distinct (microfeatures c) \<and>
     distinct (map fst (dim2weight c)) \<and>
     (\<forall>f \<in> set (microfeatures c). map_of (dim2weight c) (dim f) \<noteq> None)"

text \<open>The exceptions the module's operations can raise.\<close>

datatype pyerr = KeyError | ZeroDivisionError | ValueError

section \<open>TopDown\<close>

text \<open>
  \<^verbatim>\<open>count_values\<close>: one pass over the microfeatures; \<^verbatim>\<open>counts[f.dim()] += 1\<close>
  when the key is there, \<^verbatim>\<open>counts[f.dim()] = 1\<close> on KeyError.
\<close>

fun count_values_loop :: "('d \<times> nat) list \<Rightarrow> ('d, 'v) microfeature list \<Rightarrow> ('d \<times> nat) list" where
  "count_values_loop counts [] = counts"
| "count_values_loop counts (f # fs) =
     count_values_loop
       (case map_of counts (dim f) of
          Some n \<Rightarrow> AList.update (dim f) (n + 1) counts
        | None \<Rightarrow> AList.update (dim f) 1 counts) fs"

definition count_values :: "('d, 'v) microfeature list \<Rightarrow> ('d \<times> nat) list" where
  "count_values mfs = count_values_loop [] mfs"

record ('d, 'v) topdown =
  td_chunk :: "('d, 'v) chunk"
  val_counts :: "('d \<times> nat) list"

definition TopDown_init :: "('d, 'v) chunk \<Rightarrow> ('d, 'v) topdown" where
  "TopDown_init c = \<lparr>td_chunk = c, val_counts = count_values (microfeatures c)\<rparr>"

text \<open>
  The loop of \<^verbatim>\<open>TopDown.__call__\<close>. Both dict reads raise KeyError on a missing
  key, and the division raises ZeroDivisionError on a zero count.
\<close>

fun TopDown_loop ::
  "('d, 'v) topdown \<Rightarrow> real \<Rightarrow> (('d, 'v) node \<times> real) list \<Rightarrow>
   ('d, 'v) microfeature list \<Rightarrow> pyerr + (('d, 'v) node \<times> real) list" where
  "TopDown_loop td strength activations [] = Inr activations"
| "TopDown_loop td strength activations (f # fs) =
     (case map_of (dim2weight (td_chunk td)) (dim f) of
        None \<Rightarrow> Inl KeyError
      | Some w_dim \<Rightarrow>
          (case map_of (val_counts td) (dim f) of
             None \<Rightarrow> Inl KeyError
           | Some n_val \<Rightarrow>
               if n_val = 0 then Inl ZeroDivisionError
               else TopDown_loop td strength
                      (AList.update (FeatureNode f) (strength * w_dim / real n_val) activations) fs))"

definition TopDown_call ::
  "('d, 'v) topdown \<Rightarrow> (('d, 'v) node \<rightharpoonup> real) \<Rightarrow> pyerr + (('d, 'v) node \<times> real) list" where
  "TopDown_call td input_map =
     (case input_map (ChunkNode (td_chunk td)) of
        None \<Rightarrow> Inr []
      | Some strength \<Rightarrow> TopDown_loop td strength [] (microfeatures (td_chunk td)))"

section \<open>Python numbers\<close>

text \<open>
  A float power and a division of the module can leave the floats: Python 3 answers a
  negative float raised to a fractional power with a complex number. \<open>pynum\<close> is the
  part of the numeric tower the module can reach; the integer \<^verbatim>\<open>0\<close> that
  \<^verbatim>\<open>sum\<close> starts from is read as the float \<open>0\<close>.
\<close>

datatype pynum = PyFloat real | PyComplex complex

fun to_complex :: "pynum \<Rightarrow> complex" where
  "to_complex (PyFloat x) = complex_of_real x"
| "to_complex (PyComplex z) = z"

fun py_add :: "pynum \<Rightarrow> pynum \<Rightarrow> pynum" where
  "py_add (PyFloat a) (PyFloat b) = PyFloat (a + b)"
| "py_add a b = PyComplex (to_complex a + to_complex b)"

fun py_mul :: "pynum \<Rightarrow> pynum \<Rightarrow> pynum" where
  "py_mul (PyFloat a) (PyFloat b) = PyFloat (a * b)"
| "py_mul a b = PyComplex (to_complex a * to_complex b)"

text \<open>\<^verbatim>\<open>a / b\<close> for a float \<open>a\<close>: a zero divisor raises.\<close>

fun py_truediv :: "real \<Rightarrow> pynum \<Rightarrow> pyerr + pynum" where
  "py_truediv a (PyFloat b) = (if b = 0 then Inl ZeroDivisionError else Inr (PyFloat (a / b)))"
| "py_truediv a (PyComplex b) =
     (if b = 0 then Inl ZeroDivisionError else Inr (PyComplex (complex_of_real a / b)))"

text \<open>
  \<^verbatim>\<open>x ** y\<close> for floats, in the case order of the interpreter: a zero exponent
  gives 1; a zero base raises on a negative exponent and gives 0 otherwise; a negative
  base with a fractional exponent gives the complex principal value (modulus
  \<open>\<bar>x\<bar> powr y\<close>, argument \<open>pi * y\<close>); a negative base with an integral exponent
  keeps or flips the sign by the exponent's parity.
\<close>

definition py_pow :: "real \<Rightarrow> real \<Rightarrow> pyerr + pynum" where
  "py_pow x y =
     (if y = 0 then Inr (PyFloat 1)
      else if x = 0 then (if y < 0 then Inl ZeroDivisionError else Inr (PyFloat 0))
      else if x < 0 then
        (if y \<noteq> of_int \<lfloor>y\<rfloor>
         then Inr (PyComplex (complex_of_real (\<bar>x\<bar> powr y) * cis (pi * y)))
         else Inr (PyFloat (if even \<lfloor>y\<rfloor> then \<bar>x\<bar> powr y else - (\<bar>x\<bar> powr y))))
      else Inr (PyFloat (x powr y)))"

text \<open>\<^verbatim>\<open>sum(xs)\<close>: additions from the left, starting from 0.\<close>

definition py_sum :: "pynum list \<Rightarrow> pynum" where
  "py_sum xs = foldl py_add (PyFloat 0) xs"

section \<open>BottomUp\<close>

text \<open>
  The first loop of \<^verbatim>\<open>BottomUp.__call__\<close>, one microfeature at a time. The
  comparison reads \<^verbatim>\<open>dim2activation[f.dim()]\<close> first and \<^verbatim>\<open>input_map[f]\<close>
  second; either KeyError enters the handler, which stores \<^verbatim>\<open>input_map[f]\<close> or,
  on a second KeyError, moves on.
\<close>

definition BottomUp_step ::
  "(('d, 'v) node \<rightharpoonup> real) \<Rightarrow> ('d \<times> real) list \<Rightarrow> ('d, 'v) microfeature \<Rightarrow> ('d \<times> real) list" where
  "BottomUp_step input_map dim2activation f =
     (case map_of dim2activation (dim f) of
        None \<Rightarrow>
          (case input_map (FeatureNode f) of
             None \<Rightarrow> dim2activation
           | Some a \<Rightarrow> AList.update (dim f) a dim2activation)
      | Some cur \<Rightarrow>
          (case input_map (FeatureNode f) of
             None \<Rightarrow> dim2activation
           | Some a \<Rightarrow>
               if cur < a then AList.update (dim f) a dim2activation else dim2activation))"

fun BottomUp_dims ::
  "(('d, 'v) node \<rightharpoonup> real) \<Rightarrow> ('d \<times> real) list \<Rightarrow> ('d, 'v) microfeature list \<Rightarrow> ('d \<times> real) list" where
  "BottomUp_dims input_map dim2activation [] = dim2activation"
| "BottomUp_dims input_map dim2activation (f # fs) =
     BottomUp_dims input_map (BottomUp_step input_map dim2activation f) fs"

text \<open>
  The second loop runs over the keys of \<^verbatim>\<open>dim2activation\<close>; the read of
  \<^verbatim>\<open>self.chunk.dim2weight[dim]\<close> raises KeyError on a dimension without weight.
\<close>

fun BottomUp_sum ::
  "('d \<times> real) list \<Rightarrow> ('d \<times> real) list \<Rightarrow> real \<Rightarrow> 'd list \<Rightarrow> pyerr + real" where
  "BottomUp_sum weights dim2activation strength [] = Inr strength"
| "BottomUp_sum weights dim2activation strength (d # ds) =
     (case map_of weights d of
        None \<Rightarrow> Inl KeyError
      | Some w \<Rightarrow>
          (case map_of dim2activation d of
             None \<Rightarrow> Inl KeyError
           | Some a \<Rightarrow> BottomUp_sum weights dim2activation (strength + w * a) ds))"

text \<open>
  The \<^verbatim>\<open>else\<close> of the loop divides by \<^verbatim>\<open>sum(self.chunk.dim2weight.values()) ** 1.1\<close>.
\<close>

definition BottomUp_call ::
  "('d, 'v) chunk \<Rightarrow> (('d, 'v) node \<rightharpoonup> real) \<Rightarrow> pyerr + (('d, 'v) node \<times> pynum) list" where
  "BottomUp_call c input_map =
     (let dim2activation = BottomUp_dims input_map [] (microfeatures c) in
      case BottomUp_sum (dim2weight c) dim2activation 0 (map fst dim2activation) of
        Inl e \<Rightarrow> Inl e
      | Inr strength \<Rightarrow>
          (case py_pow (sum_list (map snd (dim2weight c))) (11 / 10) of
             Inl e \<Rightarrow> Inl e
           | Inr p \<Rightarrow>
               (case py_truediv strength p of
                  Inl e \<Rightarrow> Inl e
                | Inr s \<Rightarrow> Inr [(ChunkNode c, s)])))"

text \<open>
  The contract in the specification's words: \<open>D\<close> is the set of dimensions with a
  microfeature of the chunk present in the input, each dimension counts with the
  largest activation among its present microfeatures, and the weighted sum is divided
  by the sum of all weights raised to 1.1.
\<close>

definition present_dims :: "('d, 'v) chunk \<Rightarrow> (('d, 'v) node \<rightharpoonup> real) \<Rightarrow> 'd set" where
  "present_dims c input_map =
     dim ` {f \<in> set (microfeatures c). input_map (FeatureNode f) \<noteq> None}"

text \<open>The activations of the microfeatures of a dimension that the input holds.\<close>

definition present_acts :: "(('d, 'v) node \<rightharpoonup> real) \<Rightarrow> ('d, 'v) microfeature list \<Rightarrow> 'd \<Rightarrow> real set" where
  "present_acts input_map fs d = {a. \<exists>f \<in> set fs. dim f = d \<and> input_map (FeatureNode f) = Some a}"

definition max_activation :: "('d, 'v) chunk \<Rightarrow> (('d, 'v) node \<rightharpoonup> real) \<Rightarrow> 'd \<Rightarrow> real" where
  "max_activation c input_map d =
     Max {a. \<exists>f \<in> set (microfeatures c). dim f = d \<and> input_map (FeatureNode f) = Some a}"

definition weight :: "('d, 'v) chunk \<Rightarrow> 'd \<Rightarrow> real" where
  "weight c d = the (map_of (dim2weight c) d)"

definition weighted_evidence :: "('d, 'v) chunk \<Rightarrow> (('d, 'v) node \<rightharpoonup> real) \<Rightarrow> real" where
  "weighted_evidence c input_map =
     (\<Sum>d \<in> present_dims c input_map. weight c d * max_activation c input_map d)"

definition total_weight :: "('d, 'v) chunk \<Rightarrow> real" where
  "total_weight c = sum_list (map snd (dim2weight c))"

section \<open>Rule\<close>

record ('d, 'v) rule =
  chunk2weight :: "(('d, 'v) chunk \<times> real) list"
  conclusion_chunk :: "('d, 'v) chunk"

text \<open>
  The loop of \<^verbatim>\<open>Rule.__call__\<close> over the keys of \<^verbatim>\<open>chunk2weight\<close>: a KeyError
  of either read skips the chunk.
\<close>

fun Rule_loop ::
  "('d, 'v) rule \<Rightarrow> (('d, 'v) node \<rightharpoonup> real) \<Rightarrow> real \<Rightarrow> ('d, 'v) chunk list \<Rightarrow> real" where
  "Rule_loop r input_map strength [] = strength"
| "Rule_loop r input_map strength (c # cs) =
     (case input_map (ChunkNode c) of
        None \<Rightarrow> Rule_loop r input_map strength cs
      | Some a \<Rightarrow>
          (case map_of (chunk2weight r) c of
             None \<Rightarrow> Rule_loop r input_map strength cs
           | Some w \<Rightarrow> Rule_loop r input_map (strength + a * w) cs))"

definition Rule_call ::
  "('d, 'v) rule \<Rightarrow> (('d, 'v) node \<rightharpoonup> real) \<Rightarrow> (('d, 'v) node \<times> real) list" where
  "Rule_call r input_map =
     [(ChunkNode (conclusion_chunk r), Rule_loop r input_map 0 (map fst (chunk2weight r)))]"

text \<open>The activation a rule reads for a condition chunk: 0 when the input lacks it.\<close>

definition activation_or_zero :: "(('d, 'v) node \<rightharpoonup> real) \<Rightarrow> ('d, 'v) chunk \<Rightarrow> real" where
  "activation_or_zero input_map c = (case input_map (ChunkNode c) of None \<Rightarrow> 0 | Some a \<Rightarrow> a)"

section \<open>MaxJunction\<close>

text \<open>
  Modelled from the spec: \<^verbatim>\<open>nodes.get_nodes\<close> of \<^verbatim>\<open>pyClarion.base.nodes\<close>, the set
  of all keys of the given maps (the union of their key sets), here in the order of
  first occurrence.
\<close>

definition get_nodes :: "('k \<times> real) list list \<Rightarrow> 'k list" where
  "get_nodes input_maps = remdups (concat (map (map fst) input_maps))"

text \<open>
  One pass of the inner loop of \<^verbatim>\<open>MaxJunction.__call__\<close>: the comparison reads
  \<^verbatim>\<open>activations[node]\<close> first and \<^verbatim>\<open>input_map[node]\<close> second; either KeyError
  enters the handler, which stores \<^verbatim>\<open>input_map[node]\<close> or moves on.
\<close>

definition MaxJunction_step ::
  "('k \<times> real) list \<Rightarrow> 'k \<Rightarrow> ('k \<times> real) list \<Rightarrow> ('k \<times> real) list" where
  "MaxJunction_step activations n input_map =
     (case map_of activations n of
        None \<Rightarrow>
          (case map_of input_map n of
             None \<Rightarrow> activations
           | Some v \<Rightarrow> AList.update n v activations)
      | Some cur \<Rightarrow>
          (case map_of input_map n of
             None \<Rightarrow> activations
           | Some v \<Rightarrow> if cur < v then AList.update n v activations else activations))"

fun MaxJunction_node ::
  "('k \<times> real) list \<Rightarrow> 'k \<Rightarrow> ('k \<times> real) list list \<Rightarrow> ('k \<times> real) list" where
  "MaxJunction_node activations n [] = activations"
| "MaxJunction_node activations n (input_map # rest) =
     MaxJunction_node (MaxJunction_step activations n input_map) n rest"

fun MaxJunction_loop ::
  "('k \<times> real) list \<Rightarrow> 'k list \<Rightarrow> ('k \<times> real) list list \<Rightarrow> ('k \<times> real) list" where
  "MaxJunction_loop activations [] input_maps = activations"
| "MaxJunction_loop activations (n # ns) input_maps =
     MaxJunction_loop (MaxJunction_node activations n input_maps) ns input_maps"

definition MaxJunction_call :: "('k \<times> real) list list \<Rightarrow> ('k \<times> real) list" where
  "MaxJunction_call input_maps = MaxJunction_loop [] (get_nodes input_maps) input_maps"

text \<open>The values a node has in the input maps that hold it.\<close>

definition votes :: "('k \<times> real) list list \<Rightarrow> 'k \<Rightarrow> real set" where
  "votes input_maps n = {v. \<exists>m \<in> set input_maps. map_of m n = Some v}"

section \<open>BoltzmannSelector\<close>

record ('d, 'v) boltzmann_selector =
  chunks :: "('d, 'v) chunk list"
  temperature :: real

text \<open>
  The first loop of \<^verbatim>\<open>BoltzmannSelector.__call__\<close>: a chunk of the input gets the
  term \<^verbatim>\<open>exp(strength / temperature)\<close> (the division raises on a zero temperature),
  a chunk missing from the input the term 1.0; the divisor adds the terms up.
\<close>

fun Boltzmann_terms ::
  "real \<Rightarrow> (('d, 'v) chunk \<rightharpoonup> real) \<Rightarrow> (('d, 'v) chunk \<times> real) list \<Rightarrow> real \<Rightarrow>
   ('d, 'v) chunk list \<Rightarrow> pyerr + ((('d, 'v) chunk \<times> real) list \<times> real)" where
  "Boltzmann_terms T chunk2strength terms divisor [] = Inr (terms, divisor)"
| "Boltzmann_terms T chunk2strength terms divisor (c # cs) =
     (case chunk2strength c of
        None \<Rightarrow> Boltzmann_terms T chunk2strength (AList.update c 1 terms) (divisor + 1) cs
      | Some s \<Rightarrow>
          if T = 0 then Inl ZeroDivisionError
          else Boltzmann_terms T chunk2strength
                 (AList.update c (exp (s / T)) terms) (divisor + exp (s / T)) cs)"

text \<open>
  The list comprehension \<^verbatim>\<open>[terms[chunk] / divisor for chunk in chunk_list]\<close>.
\<close>

fun Boltzmann_probabilities ::
  "('c \<times> real) list \<Rightarrow> real \<Rightarrow> 'c list \<Rightarrow> pyerr + real list" where
  "Boltzmann_probabilities terms divisor [] = Inr []"
| "Boltzmann_probabilities terms divisor (c # cs) =
     (case map_of terms c of
        None \<Rightarrow> Inl KeyError
      | Some t \<Rightarrow>
          if divisor = 0 then Inl ZeroDivisionError
          else (case Boltzmann_probabilities terms divisor cs of
                  Inl e \<Rightarrow> Inl e
                | Inr ps \<Rightarrow> Inr (t / divisor # ps)))"

text \<open>
  \<^verbatim>\<open>np.random.choice(a, p=p)\<close> draws the entry \<open>i\<close> of \<open>a\<close> with probability
  \<open>p ! i\<close>. The draw is represented by its table of outcomes and probabilities; numpy
  raises ValueError on an empty list and on a vector \<open>p\<close> that is not a probability
  distribution over the entries.
\<close>

definition random_choice :: "'a list \<Rightarrow> real list \<Rightarrow> pyerr + ('a \<times> real) list" where
  "random_choice a p =
     (if a = [] then Inl ValueError
      else if length p \<noteq> length a \<or> (\<exists>x \<in> set p. x < 0) \<or> sum_list p \<noteq> 1 then Inl ValueError
      else Inr (zip a p))"

text \<open>The call returns the set \<^verbatim>\<open>{choice}\<close>: one singleton per outcome of the draw.\<close>

definition BoltzmannSelector_call ::
  "('d, 'v) boltzmann_selector \<Rightarrow> (('d, 'v) chunk \<rightharpoonup> real) \<Rightarrow>
   pyerr + (('d, 'v) chunk set \<times> real) list" where
  "BoltzmannSelector_call sel chunk2strength =
     (case Boltzmann_terms (temperature sel) chunk2strength [] 0 (chunks sel) of
        Inl e \<Rightarrow> Inl e
      | Inr (terms, divisor) \<Rightarrow>
          (case Boltzmann_probabilities terms divisor (chunks sel) of
             Inl e \<Rightarrow> Inl e
           | Inr probabilities \<Rightarrow>
               (case random_choice (chunks sel) probabilities of
                  Inl e \<Rightarrow> Inl e
                | Inr outcomes \<Rightarrow> Inr (map (\<lambda>(choice, p). ({choice}, p)) outcomes))))"

text \<open>The term of a candidate in the specification's words.\<close>

definition boltzmann_term :: "real \<Rightarrow> ('c \<rightharpoonup> real) \<Rightarrow> 'c \<Rightarrow> real" where
  "boltzmann_term T chunk2strength c =
     (case chunk2strength c of None \<Rightarrow> 1 | Some s \<Rightarrow> exp (s / T))"

section \<open>BLA\<close>

record bla =
  initial_activation :: real
  amplitude :: real
  decay_rate :: real
  density :: real
  timestamps :: "real list"

definition BLA_init :: "real \<Rightarrow> real \<Rightarrow> real \<Rightarrow> real \<Rightarrow> bla" where
  "BLA_init ia amp dr dens =
     \<lparr>initial_activation = ia, amplitude = amp, decay_rate = dr, density = dens,
      timestamps = []\<rparr>"

definition bla_update :: "real \<Rightarrow> bla \<Rightarrow> bla" where
  "bla_update current_time b = b\<lparr>timestamps := timestamps b @ [current_time]\<rparr>"

text \<open>The list comprehension of \<^verbatim>\<open>compute_bla\<close>: the first power that raises ends it.\<close>

fun summation_terms :: "real \<Rightarrow> real \<Rightarrow> real list \<Rightarrow> pyerr + pynum list" where
  "summation_terms current_time dr [] = Inr []"
| "summation_terms current_time dr (t # ts) =
     (case py_pow (current_time - t) (- dr) of
        Inl e \<Rightarrow> Inl e
      | Inr x \<Rightarrow>
          (case summation_terms current_time dr ts of
             Inl e \<Rightarrow> Inl e
           | Inr xs \<Rightarrow> Inr (x # xs)))"

definition compute_bla :: "bla \<Rightarrow> real \<Rightarrow> pyerr + pynum" where
  "compute_bla b current_time =
     (case summation_terms current_time (decay_rate b) (timestamps b) of
        Inl e \<Rightarrow> Inl e
      | Inr terms \<Rightarrow>
          Inr (py_add (PyFloat (initial_activation b))
                 (py_mul (PyFloat (amplitude b)) (py_sum terms))))"

text \<open>
  The value \<open>x\<close> to the power \<open>y\<close> as a complex number (the principal value), for the
  formula of the specification: it is real for a positive base.
\<close>

definition principal_power :: "real \<Rightarrow> real \<Rightarrow> complex" where
  "principal_power x y =
     (if y = 0 then 1
      else if x = 0 then 0
      else if 0 < x then complex_of_real (x powr y)
      else complex_of_real (\<bar>x\<bar> powr y) * cis (pi * y))"

section \<open>MatchStatistics\<close>

record match_statistics =
  positive_matches :: real
  negative_matches :: real

definition MatchStatistics_init :: match_statistics where
  "MatchStatistics_init = \<lparr>positive_matches = 0, negative_matches = 0\<rparr>"

definition ms_update :: "bool \<Rightarrow> match_statistics \<Rightarrow> match_statistics" where
  "ms_update positive_match s =
     (if positive_match then s\<lparr>positive_matches := positive_matches s + 1\<rparr>
      else s\<lparr>negative_matches := negative_matches s + 1\<rparr>)"

definition discount :: "real \<Rightarrow> match_statistics \<Rightarrow> match_statistics" where
  "discount multiplier s =
     s\<lparr>positive_matches := positive_matches s * multiplier,
       negative_matches := negative_matches s * multiplier\<rparr>"

section \<open>The fixtures of the test suite\<close>

definition white :: "(string, string) microfeature" where
  "white = Microfeature ''Color'' ''White''"

definition black :: "(string, string) microfeature" where
  "black = Microfeature ''Color'' ''Black''"

definition square :: "(string, string) microfeature" where
  "square = Microfeature ''Shape'' ''Square''"

definition circle :: "(string, string) microfeature" where
  "circle = Microfeature ''Shape'' ''Circle''"

definition chunk1 :: "(string, string) chunk" where
  "chunk1 = \<lparr>ident = 1, microfeatures = [white, square],
              dim2weight = [(''Color'', 1), (''Shape'', 1)]\<rparr>"

definition chunk2 :: "(string, string) chunk" where
  "chunk2 = \<lparr>ident = 2, microfeatures = [black, white, square],
              dim2weight = [(''Color'', 1), (''Shape'', 1)]\<rparr>"

definition sensory_input_1 :: "(string, string) node \<rightharpoonup> real" where
  "sensory_input_1 = map_of [(FeatureNode black, 1), (FeatureNode white, 0),
                              (FeatureNode square, 1), (FeatureNode circle, 0)]"

definition sensory_input_2 :: "(string, string) node \<rightharpoonup> real" where
  "sensory_input_2 = map_of [(FeatureNode black, 0), (FeatureNode white, 1),
                              (FeatureNode square, 1), (FeatureNode circle, 0)]"

definition sensory_input_3 :: "(string, string) node \<rightharpoonup> real" where
  "sensory_input_3 = map_of [(FeatureNode black, 1), (FeatureNode white, 0),
                              (FeatureNode square, 0), (FeatureNode circle, 1)]"

text \<open>The first chunk with weight 2 on both dimensions, and with its members reordered.\<close>

definition chunk_w2 :: "(string, string) chunk" where
  "chunk_w2 = \<lparr>ident = 3, microfeatures = [white, square],
                dim2weight = [(''Color'', 2), (''Shape'', 2)]\<rparr>"

definition chunk1_reordered :: "(string, string) chunk" where
  "chunk1_reordered = \<lparr>ident = 1, microfeatures = [square, white],
              dim2weight = [(''Shape'', 1), (''Color'', 1)]\<rparr>"

text \<open>
  The first chunk with weight 0 on both dimensions, and a chunk whose weight mapping
  has no entry for the dimension of its microfeature.
\<close>

definition chunk_zero_weights :: "(string, string) chunk" where
  "chunk_zero_weights = \<lparr>ident = 5, microfeatures = [white, square],
                          dim2weight = [(''Color'', 0), (''Shape'', 0)]\<rparr>"

definition chunk_unweighted :: "(string, string) chunk" where
  "chunk_unweighted = \<lparr>ident = 4, microfeatures = [white],
                        dim2weight = [(''Shape'', 1)]\<rparr>"

text \<open>A chunk without microfeatures.\<close>

definition chunk0 :: "(string, string) chunk" where
  "chunk0 = \<lparr>ident = 0, microfeatures = [], dim2weight = []\<rparr>"

text \<open>A chunk without microfeatures whose weight mapping is not empty.\<close>

definition chunk7 :: "(string, string) chunk" where
  "chunk7 = \<lparr>ident = 7, microfeatures = [], dim2weight = [(''Color'', 1)]\<rparr>"

text \<open>The rule of the test suite: two condition chunks of weight 0.5 each.\<close>

definition mock_chunk_1 :: "(string, string) chunk" where
  "mock_chunk_1 = \<lparr>ident = 11, microfeatures = [], dim2weight = []\<rparr>"

definition mock_chunk_2 :: "(string, string) chunk" where
  "mock_chunk_2 = \<lparr>ident = 12, microfeatures = [], dim2weight = []\<rparr>"

definition mock_chunk_3 :: "(string, string) chunk" where
  "mock_chunk_3 = \<lparr>ident = 13, microfeatures = [], dim2weight = []\<rparr>"

definition test_rule :: "(string, string) rule" where
  "test_rule = \<lparr>chunk2weight = [(mock_chunk_1, 1 / 2), (mock_chunk_2, 1 / 2)],
                 conclusion_chunk = mock_chunk_3\<rparr>"

text \<open>A selector over the first two chunks of the rule, at temperature 1.\<close>

definition test_selector :: "(string, string) boltzmann_selector" where
  "test_selector = \<lparr>chunks = [mock_chunk_1, mock_chunk_2], temperature = 1\<rparr>"

text \<open>
  The record of the test suite after updates at 0 and 1.5, and a record without decay.
\<close>

definition test_bla :: bla where
  "test_bla = bla_update (3 / 2) (bla_update 0 (BLA_init 0 2 (1 / 2) 0))"

definition no_decay_bla :: bla where
  "no_decay_bla = bla_update 0 (BLA_init 0 2 0 0)"

section \<open>Properties of MatchStatistics\<close>

text \<open>
  Claim C9. Two calls of \<^verbatim>\<open>discount(0.5)\<close> leave the same counters as one call of
  \<^verbatim>\<open>discount(0.25)\<close>; in general each call multiplies both counters by its
  multiplier, so two calls compose to one call with the product.
\<close>

theorem discount_composes:
  "discount (1/2) (discount (1/2) s) = discount (1/4) s
   \<and> discount m2 (discount m1 s) = discount (m1 * m2) s
   \<and> positive_matches (discount m s) = positive_matches s * m
   \<and> negative_matches (discount m s) = negative_matches s * m"
  by (simp add: discount_def)

section \<open>Properties of TopDown\<close>

lemma count_values_loop_lookup:
  "map_of (count_values_loop counts fs) d =
     (case map_of counts d of
        None \<Rightarrow> (if filter (\<lambda>f. dim f = d) fs = [] then None
                  else Some (length (filter (\<lambda>f. dim f = d) fs)))
      | Some n \<Rightarrow> Some (n + length (filter (\<lambda>f. dim f = d) fs)))"
proof (induction fs arbitrary: counts)
  case Nil
  then show ?case by (simp split: option.splits)
next
  case (Cons f fs)
  show ?case
    by (cases "map_of counts (dim f)")
       (auto simp: Cons.IH update_conv' split: option.splits)
qed

lemma count_values_lookup:
  "map_of (count_values fs) d =
     (if filter (\<lambda>f. dim f = d) fs = [] then None
      else Some (length (filter (\<lambda>f. dim f = d) fs)))"
  by (simp add: count_values_def count_values_loop_lookup)

lemma count_values_member:
  "f \<in> set fs \<Longrightarrow>
     map_of (count_values fs) (dim f) = Some (length (filter (\<lambda>g. dim g = dim f) fs))
     \<and> 0 < length (filter (\<lambda>g. dim g = dim f) fs)"
  by (auto simp: count_values_lookup filter_empty_conv)

lemma TopDown_loop_total:
  assumes "\<forall>f \<in> set fs. \<exists>w n. map_of (dim2weight (td_chunk td)) (dim f) = Some w
              \<and> map_of (val_counts td) (dim f) = Some n \<and> n \<noteq> 0"
  shows "\<exists>acts'. TopDown_loop td s acts fs = Inr acts'
           \<and> fst ` set acts' = fst ` set acts \<union> FeatureNode ` set fs
           \<and> (distinct (map fst acts) \<longrightarrow> distinct (map fst acts'))
           \<and> (\<forall>f \<in> set fs. map_of acts' (FeatureNode f) =
                 Some (s * the (map_of (dim2weight (td_chunk td)) (dim f))
                         / real (the (map_of (val_counts td) (dim f)))))
           \<and> (\<forall>k. k \<notin> FeatureNode ` set fs \<longrightarrow> map_of acts' k = map_of acts k)"
  using assms
proof (induction fs arbitrary: acts)
  case Nil
  then show ?case by simp
next
  case (Cons f fs)
  from Cons.prems obtain w n where
    wn: "map_of (dim2weight (td_chunk td)) (dim f) = Some w"
        "map_of (val_counts td) (dim f) = Some n" "n \<noteq> 0"
    by auto
  let ?acts = "AList.update (FeatureNode f) (s * w / real n) acts"
  from Cons.prems have rest: "\<forall>f \<in> set fs. \<exists>w n. map_of (dim2weight (td_chunk td)) (dim f) = Some w
              \<and> map_of (val_counts td) (dim f) = Some n \<and> n \<noteq> 0"
    by simp
  from Cons.IH [OF rest, of ?acts] obtain acts' where
    r: "TopDown_loop td s ?acts fs = Inr acts'"
    and k: "fst ` set acts' = fst ` set ?acts \<union> FeatureNode ` set fs"
    and d: "distinct (map fst ?acts) \<longrightarrow> distinct (map fst acts')"
    and v: "\<forall>f \<in> set fs. map_of acts' (FeatureNode f) =
                 Some (s * the (map_of (dim2weight (td_chunk td)) (dim f))
                         / real (the (map_of (val_counts td) (dim f))))"
    and o: "\<forall>k. k \<notin> FeatureNode ` set fs \<longrightarrow> map_of acts' k = map_of ?acts k"
    by blast
  have 1: "TopDown_loop td s acts (f # fs) = Inr acts'"
    using wn r by simp
  have 2: "fst ` set acts' = fst ` set acts \<union> FeatureNode ` set (f # fs)"
    using k by (auto simp: dom_update)
  have 3: "distinct (map fst acts) \<longrightarrow> distinct (map fst acts')"
    using d by (simp add: distinct_update)
  have 4: "map_of acts' (FeatureNode g) =
                 Some (s * the (map_of (dim2weight (td_chunk td)) (dim g))
                         / real (the (map_of (val_counts td) (dim g))))"
    if "g \<in> set (f # fs)" for g
  proof (cases "g \<in> set fs")
    case True
    then show ?thesis using v by blast
  next
    case False
    with that have "g = f" by simp
    moreover from False have "FeatureNode g \<notin> FeatureNode ` set fs" by auto
    ultimately show ?thesis using o wn by (simp add: update_conv')
  qed
  have 5: "map_of acts' k = map_of acts k" if "k \<notin> FeatureNode ` set (f # fs)" for k
  proof -
    from that have "k \<notin> FeatureNode ` set fs" "k \<noteq> FeatureNode f" by auto
    then show ?thesis using o by (simp add: update_conv')
  qed
  from 1 2 3 4 5 show ?case by blast
qed

text \<open>
  Claim C1. When the input map holds the bound chunk with value \<open>s\<close>, the call returns
  a map whose keys are exactly the chunk's microfeatures, and the value at a
  microfeature \<open>f\<close> is \<open>s\<close> times the weight of \<open>f\<close>'s dimension divided by the
  number of the chunk's microfeatures in that dimension. When the input map does not
  hold the bound chunk, the call returns the empty map.
\<close>

theorem TopDown_call_spec:
  assumes "wf_chunk c"
  shows "(input_map (ChunkNode c) = Some s \<longrightarrow>
            (\<exists>acts. TopDown_call (TopDown_init c) input_map = Inr acts
               \<and> distinct (map fst acts)
               \<and> fst ` set acts = FeatureNode ` set (microfeatures c)
               \<and> (\<forall>f \<in> set (microfeatures c). \<exists>w.
                     map_of (dim2weight c) (dim f) = Some w \<and>
                     map_of acts (FeatureNode f) =
                       Some (s * w / real (length (filter (\<lambda>g. dim g = dim f) (microfeatures c)))))))
       \<and> (input_map (ChunkNode c) = None \<longrightarrow>
            TopDown_call (TopDown_init c) input_map = Inr [])"
proof (intro conjI impI)
  assume s: "input_map (ChunkNode c) = Some s"
  let ?td = "TopDown_init c"
  have pre: "\<forall>f \<in> set (microfeatures c). \<exists>w n. map_of (dim2weight (td_chunk ?td)) (dim f) = Some w
              \<and> map_of (val_counts ?td) (dim f) = Some n \<and> n \<noteq> 0"
    using assms count_values_member [of _ "microfeatures c"]
    by (fastforce simp: wf_chunk_def TopDown_init_def)
  from TopDown_loop_total [OF pre, of s "[]"] obtain acts where
    r: "TopDown_loop ?td s [] (microfeatures c) = Inr acts"
    and k: "fst ` set acts = FeatureNode ` set (microfeatures c)"
    and d: "distinct (map fst acts)"
    and v: "\<forall>f \<in> set (microfeatures c). map_of acts (FeatureNode f) =
                 Some (s * the (map_of (dim2weight (td_chunk ?td)) (dim f))
                         / real (the (map_of (val_counts ?td) (dim f))))"
    by auto
  have call: "TopDown_call ?td input_map = Inr acts"
    using s r by (simp add: TopDown_call_def TopDown_init_def)
  have vals: "\<exists>w. map_of (dim2weight c) (dim f) = Some w \<and>
                map_of acts (FeatureNode f) =
                  Some (s * w / real (length (filter (\<lambda>g. dim g = dim f) (microfeatures c))))"
    if f: "f \<in> set (microfeatures c)" for f
  proof -
    from assms f obtain w where w: "map_of (dim2weight c) (dim f) = Some w"
      by (auto simp: wf_chunk_def)
    from count_values_member [OF f] v f w show ?thesis
      by (simp add: TopDown_init_def)
  qed
  from call k d vals
  show "\<exists>acts. TopDown_call ?td input_map = Inr acts
               \<and> distinct (map fst acts)
               \<and> fst ` set acts = FeatureNode ` set (microfeatures c)
               \<and> (\<forall>f \<in> set (microfeatures c). \<exists>w.
                     map_of (dim2weight c) (dim f) = Some w \<and>
                     map_of acts (FeatureNode f) =
                       Some (s * w / real (length (filter (\<lambda>g. dim g = dim f) (microfeatures c)))))"
    by blast
next
  assume "input_map (ChunkNode c) = None"
  then show "TopDown_call (TopDown_init c) input_map = Inr []"
    by (simp add: TopDown_call_def TopDown_init_def)
qed

lemma wf_chunk2: "wf_chunk chunk2"
  by (simp add: wf_chunk_def chunk2_def white_def black_def square_def)

theorem TopDown_call_spec_witness:
  "wf_chunk chunk2
   \<and> [ChunkNode chunk2 \<mapsto> 1::real] (ChunkNode chunk2) = Some 1
   \<and> (\<exists>acts. TopDown_call (TopDown_init chunk2) [ChunkNode chunk2 \<mapsto> 1] = Inr acts
        \<and> fst ` set acts = FeatureNode ` set (microfeatures chunk2)
        \<and> map_of acts (FeatureNode white) = Some (1/2)
        \<and> map_of acts (FeatureNode black) = Some (1/2)
        \<and> map_of acts (FeatureNode square) = Some 1)"
proof -
  have h: "[ChunkNode chunk2 \<mapsto> (1::real)] (ChunkNode chunk2) = Some 1" by simp
  from TopDown_call_spec [where c = chunk2 and input_map = "[ChunkNode chunk2 \<mapsto> 1]" and s = 1,
      OF wf_chunk2, THEN conjunct1, THEN mp, OF h]
  obtain acts where
    a: "TopDown_call (TopDown_init chunk2) [ChunkNode chunk2 \<mapsto> 1] = Inr acts"
    and k: "fst ` set acts = FeatureNode ` set (microfeatures chunk2)"
    and v: "\<forall>f \<in> set (microfeatures chunk2). \<exists>w.
                     map_of (dim2weight chunk2) (dim f) = Some w \<and>
                     map_of acts (FeatureNode f) =
                       Some (1 * w / real (length (filter (\<lambda>g. dim g = dim f) (microfeatures chunk2))))"
    by (elim exE conjE)
  from v have w: "map_of acts (FeatureNode white) = Some (1/2)"
    by (simp add: chunk2_def white_def black_def square_def)
  from v have b: "map_of acts (FeatureNode black) = Some (1/2)"
    by (simp add: chunk2_def white_def black_def square_def)
  from v have q: "map_of acts (FeatureNode square) = Some 1"
    by (simp add: chunk2_def white_def black_def square_def)
  show ?thesis
    apply (intro conjI)
      apply (rule wf_chunk2)
     apply simp
    apply (rule exI [of _ acts])
    apply (intro conjI a k w b q)
    done
qed

text \<open>
  The chunk without microfeatures: the constructor counts nothing, and the call on an
  input that holds the chunk returns the empty map.
\<close>

theorem TopDown_empty_chunk_returns:
  "wf_chunk chunk0
   \<and> val_counts (TopDown_init chunk0) = []
   \<and> TopDown_call (TopDown_init chunk0) [ChunkNode chunk0 \<mapsto> 1] = Inr []"
  by (simp add: wf_chunk_def TopDown_init_def TopDown_call_def chunk0_def count_values_def)

lemma TopDown_loop_no_zero_division:
  assumes "val_counts td = count_values mfs" and "set fs \<subseteq> set mfs"
  shows "TopDown_loop td s acts fs \<noteq> Inl ZeroDivisionError"
  using assms(2)
proof (induction fs arbitrary: acts)
  case Nil
  then show ?case by simp
next
  case (Cons f fs)
  then have "f \<in> set mfs" by simp
  from count_values_member [OF this] assms(1) Cons show ?case
    by (simp split: option.splits)
qed

text \<open>
  Claim C7, as amended. For a chunk without microfeatures the constructor succeeds
  with an empty table of counts and every call returns the empty map; and no call of
  a top-down channel, on any chunk, raises ZeroDivisionError, since every count the
  constructor records is at least 1.
\<close>

theorem TopDown_never_divides_by_zero:
  "(microfeatures c = [] \<longrightarrow>
      val_counts (TopDown_init c) = [] \<and> TopDown_call (TopDown_init c) input_map = Inr [])
   \<and> TopDown_call (TopDown_init c) input_map \<noteq> Inl ZeroDivisionError"
proof -
  have "TopDown_loop (TopDown_init c) s [] (microfeatures c) \<noteq> Inl ZeroDivisionError" for s
    by (rule TopDown_loop_no_zero_division [where mfs = "microfeatures c"])
       (simp_all add: TopDown_init_def)
  then show ?thesis
    by (simp add: TopDown_init_def TopDown_call_def count_values_def split: option.splits)
qed

theorem TopDown_never_divides_by_zero_witness:
  "microfeatures chunk7 = []
   \<and> val_counts (TopDown_init chunk7) = []
   \<and> TopDown_call (TopDown_init chunk7) [ChunkNode chunk7 \<mapsto> 1 / 2] = Inr []"
  using TopDown_never_divides_by_zero [of chunk7 "[ChunkNode chunk7 \<mapsto> 1 / 2]"]
  by (simp add: chunk7_def)

section \<open>Properties of BottomUp\<close>

lemma present_acts_Nil: "present_acts input_map [] d = {}"
  by (simp add: present_acts_def)

lemma present_acts_Cons:
  "present_acts input_map (f # fs) d =
     (case input_map (FeatureNode f) of
        None \<Rightarrow> present_acts input_map fs d
      | Some a \<Rightarrow> if dim f = d then insert a (present_acts input_map fs d) else present_acts input_map fs d)"
  by (auto simp: present_acts_def split: option.splits)

lemma finite_present_acts: "finite (present_acts input_map fs d)"
  by (induction fs) (simp_all add: present_acts_Nil present_acts_Cons split: option.splits)

lemma BottomUp_step_lookup:
  "map_of (BottomUp_step input_map d2a f) d =
     (if d = dim f then
        (case input_map (FeatureNode f) of
           None \<Rightarrow> map_of d2a d
         | Some a \<Rightarrow> (case map_of d2a d of None \<Rightarrow> Some a | Some cur \<Rightarrow> Some (max cur a)))
      else map_of d2a d)"
  by (auto simp: BottomUp_step_def update_conv' max_def split: option.splits)

lemma Max_insert_max:
  fixes x y :: real
  shows "finite A \<Longrightarrow> Max (insert (max x y) A) = max x (Max (insert y A))"
  by (cases "A = {}") (simp_all add: max.assoc)

lemma BottomUp_dims_lookup:
  "map_of (BottomUp_dims input_map d2a fs) d =
     (case map_of d2a d of
        None \<Rightarrow> if present_acts input_map fs d = {} then None else Some (Max (present_acts input_map fs d))
      | Some cur \<Rightarrow> Some (Max (insert cur (present_acts input_map fs d))))"
proof (induction fs arbitrary: d2a)
  case Nil
  then show ?case by (simp add: present_acts_Nil split: option.splits)
next
  case (Cons f fs)
  have fin: "finite (present_acts input_map fs d)" by (rule finite_present_acts)
  show ?case
    using fin
    by (auto simp: Cons.IH BottomUp_step_lookup present_acts_Cons Max_insert_max
          split: option.splits)
qed

lemma BottomUp_step_distinct:
  "distinct (map fst d2a) \<Longrightarrow> distinct (map fst (BottomUp_step input_map d2a f))"
  by (simp add: BottomUp_step_def distinct_update split: option.splits)

lemma BottomUp_dims_distinct:
  "distinct (map fst d2a) \<Longrightarrow> distinct (map fst (BottomUp_dims input_map d2a fs))"
  by (induction fs arbitrary: d2a) (simp_all add: BottomUp_step_distinct)

lemma BottomUp_dims_keys:
  "set (map fst (BottomUp_dims input_map [] fs)) = {d. present_acts input_map fs d \<noteq> {}}"
proof -
  have "d \<in> set (map fst (BottomUp_dims input_map [] fs)) \<longleftrightarrow> present_acts input_map fs d \<noteq> {}" for d
  proof -
    have "d \<in> set (map fst (BottomUp_dims input_map [] fs))
            \<longleftrightarrow> map_of (BottomUp_dims input_map [] fs) d \<noteq> None"
      by (simp add: map_of_eq_None_iff)
    also have "\<dots> \<longleftrightarrow> present_acts input_map fs d \<noteq> {}"
      by (simp add: BottomUp_dims_lookup)
    finally show ?thesis .
  qed
  then show ?thesis by blast
qed

lemma present_acts_nonempty_iff:
  "present_acts input_map (microfeatures c) d \<noteq> {} \<longleftrightarrow> d \<in> present_dims c input_map"
  by (auto simp: present_acts_def present_dims_def)

lemma max_activation_present_acts:
  "max_activation c input_map d = Max (present_acts input_map (microfeatures c) d)"
  by (simp add: max_activation_def present_acts_def)

lemma BottomUp_sum_total:
  assumes "\<forall>d \<in> set ds. map_of weights d \<noteq> None \<and> map_of d2a d \<noteq> None"
  shows "BottomUp_sum weights d2a s ds =
           Inr (s + (\<Sum>d\<leftarrow>ds. the (map_of weights d) * the (map_of d2a d)))"
  using assms
proof (induction ds arbitrary: s)
  case Nil
  then show ?case by simp
next
  case (Cons d ds)
  then obtain w a where "map_of weights d = Some w" "map_of d2a d = Some a"
    by auto
  with Cons show ?case by (simp add: add.assoc)
qed

lemma BottomUp_numerator:
  assumes "\<forall>f \<in> set (microfeatures c). map_of (dim2weight c) (dim f) \<noteq> None"
  shows "BottomUp_sum (dim2weight c) (BottomUp_dims input_map [] (microfeatures c)) 0
           (map fst (BottomUp_dims input_map [] (microfeatures c)))
         = Inr (weighted_evidence c input_map)"
proof -
  let ?d2a = "BottomUp_dims input_map [] (microfeatures c)"
  have keys: "set (map fst ?d2a) = present_dims c input_map"
    by (simp only: BottomUp_dims_keys present_acts_nonempty_iff Collect_mem_eq)
  have dist: "distinct (map fst ?d2a)"
    by (rule BottomUp_dims_distinct) simp
  have cov: "\<forall>d \<in> set (map fst ?d2a). map_of (dim2weight c) d \<noteq> None \<and> map_of ?d2a d \<noteq> None"
  proof
    fix d assume d: "d \<in> set (map fst ?d2a)"
    then have "d \<in> present_dims c input_map" using keys by simp
    then obtain f where "f \<in> set (microfeatures c)" "dim f = d"
      by (auto simp: present_dims_def)
    with assms have "map_of (dim2weight c) d \<noteq> None" by auto
    moreover from d have "map_of ?d2a d \<noteq> None"
      by (simp add: map_of_eq_None_iff)
    ultimately show "map_of (dim2weight c) d \<noteq> None \<and> map_of ?d2a d \<noteq> None" ..
  qed
  have val: "the (map_of ?d2a d) = max_activation c input_map d"
    if "d \<in> present_dims c input_map" for d
    using that present_acts_nonempty_iff [of input_map c d]
    by (simp add: BottomUp_dims_lookup max_activation_present_acts)
  have "BottomUp_sum (dim2weight c) ?d2a 0 (map fst ?d2a)
          = Inr (0 + (\<Sum>d\<leftarrow>map fst ?d2a. the (map_of (dim2weight c) d) * the (map_of ?d2a d)))"
    by (rule BottomUp_sum_total [OF cov])
  also have "(\<Sum>d\<leftarrow>map fst ?d2a. the (map_of (dim2weight c) d) * the (map_of ?d2a d))
          = (\<Sum>d \<in> set (map fst ?d2a). the (map_of (dim2weight c) d) * the (map_of ?d2a d))"
    using dist by (rule sum_list_distinct_conv_sum_set)
  also have "\<dots> = (\<Sum>d \<in> present_dims c input_map. weight c d * max_activation c input_map d)"
    unfolding keys by (rule sum.cong) (simp_all add: val weight_def)
  finally show ?thesis by (simp add: weighted_evidence_def)
qed

lemma py_pow_11_10:
  "py_pow x (11 / 10) =
     (if x = 0 then Inr (PyFloat 0)
      else if x < 0 then Inr (PyComplex (complex_of_real (\<bar>x\<bar> powr (11 / 10)) * cis (pi * (11 / 10))))
      else Inr (PyFloat (x powr (11 / 10))))"
proof -
  have "\<lfloor>11 / 10 :: real\<rfloor> = 1" by linarith
  then show ?thesis by (simp add: py_pow_def)
qed

lemma BottomUp_call_eq:
  assumes "\<forall>f \<in> set (microfeatures c). map_of (dim2weight c) (dim f) \<noteq> None"
  shows "BottomUp_call c input_map =
     (if total_weight c = 0 then Inl ZeroDivisionError
      else if total_weight c < 0 then
        Inr [(ChunkNode c, PyComplex (complex_of_real (weighted_evidence c input_map)
               / (complex_of_real (\<bar>total_weight c\<bar> powr (11 / 10)) * cis (pi * (11 / 10)))))]
      else Inr [(ChunkNode c, PyFloat (weighted_evidence c input_map / total_weight c powr (11 / 10)))])"
proof -
  have nz: "cis (pi * (11 / 10)) \<noteq> 0"
    by (metis cis_zero cis_mult mult_zero_left zero_neq_one add.right_inverse)
  show ?thesis
    using nz
    by (simp add: BottomUp_call_def Let_def BottomUp_numerator [OF assms] py_pow_11_10
          total_weight_def [symmetric])
qed

lemma BottomUp_sum_result:
  assumes "\<forall>d \<in> set ds. map_of d2a d \<noteq> None"
  shows "BottomUp_sum weights d2a s ds =
           (if \<forall>d \<in> set ds. map_of weights d \<noteq> None
            then Inr (s + (\<Sum>d\<leftarrow>ds. the (map_of weights d) * the (map_of d2a d)))
            else Inl KeyError)"
  using assms
proof (induction ds arbitrary: s)
  case Nil
  then show ?case by simp
next
  case (Cons d ds)
  then obtain a where a: "map_of d2a d = Some a" by auto
  from Cons.prems have rest: "\<forall>d \<in> set ds. map_of d2a d \<noteq> None" by simp
  show ?case
  proof (cases "map_of weights d")
    case None
    then show ?thesis by auto
  next
    case (Some w)
    with a Cons.IH [OF rest, of "s + w * a"] show ?thesis
      by (simp add: add.assoc)
  qed
qed

lemma BottomUp_sum_KeyError:
  assumes "\<exists>d \<in> present_dims c input_map. map_of (dim2weight c) d = None"
  shows "BottomUp_sum (dim2weight c) (BottomUp_dims input_map [] (microfeatures c)) 0
           (map fst (BottomUp_dims input_map [] (microfeatures c)))
         = Inl KeyError"
proof -
  let ?d2a = "BottomUp_dims input_map [] (microfeatures c)"
  have keys: "set (map fst ?d2a) = present_dims c input_map"
    by (simp only: BottomUp_dims_keys present_acts_nonempty_iff Collect_mem_eq)
  have look: "\<forall>d \<in> set (map fst ?d2a). map_of ?d2a d \<noteq> None"
    by (simp add: map_of_eq_None_iff)
  from assms keys have "\<not> (\<forall>d \<in> set (map fst ?d2a). map_of (dim2weight c) d \<noteq> None)"
    by blast
  with BottomUp_sum_result [OF look, of "dim2weight c" 0] show ?thesis
    by (simp only: if_False)
qed

lemma BottomUp_numerator_present:
  assumes "\<forall>d \<in> present_dims c input_map. map_of (dim2weight c) d \<noteq> None"
  shows "BottomUp_sum (dim2weight c) (BottomUp_dims input_map [] (microfeatures c)) 0
           (map fst (BottomUp_dims input_map [] (microfeatures c)))
         = Inr (weighted_evidence c input_map)"
proof -
  let ?d2a = "BottomUp_dims input_map [] (microfeatures c)"
  have keys: "set (map fst ?d2a) = present_dims c input_map"
    by (simp only: BottomUp_dims_keys present_acts_nonempty_iff Collect_mem_eq)
  have dist: "distinct (map fst ?d2a)"
    by (rule BottomUp_dims_distinct) simp
  have cov: "\<forall>d \<in> set (map fst ?d2a). map_of (dim2weight c) d \<noteq> None \<and> map_of ?d2a d \<noteq> None"
  proof
    fix d assume d: "d \<in> set (map fst ?d2a)"
    then have "d \<in> present_dims c input_map" using keys by simp
    with assms have "map_of (dim2weight c) d \<noteq> None" by blast
    moreover from d have "map_of ?d2a d \<noteq> None"
      by (simp add: map_of_eq_None_iff)
    ultimately show "map_of (dim2weight c) d \<noteq> None \<and> map_of ?d2a d \<noteq> None" ..
  qed
  have val: "the (map_of ?d2a d) = max_activation c input_map d"
    if "d \<in> present_dims c input_map" for d
    using that present_acts_nonempty_iff [of input_map c d]
    by (simp add: BottomUp_dims_lookup max_activation_present_acts)
  have "BottomUp_sum (dim2weight c) ?d2a 0 (map fst ?d2a)
          = Inr (0 + (\<Sum>d\<leftarrow>map fst ?d2a. the (map_of (dim2weight c) d) * the (map_of ?d2a d)))"
    by (rule BottomUp_sum_total [OF cov])
  also have "(\<Sum>d\<leftarrow>map fst ?d2a. the (map_of (dim2weight c) d) * the (map_of ?d2a d))
          = (\<Sum>d \<in> set (map fst ?d2a). the (map_of (dim2weight c) d) * the (map_of ?d2a d))"
    using dist by (rule sum_list_distinct_conv_sum_set)
  also have "\<dots> = (\<Sum>d \<in> present_dims c input_map. weight c d * max_activation c input_map d)"
    unfolding keys by (rule sum.cong) (simp_all add: val weight_def)
  finally show ?thesis by (simp add: weighted_evidence_def)
qed

lemma cis_11_10_nonzero: "cis (pi * (11 / 10)) \<noteq> 0"
  by (metis cis_zero cis_mult mult_zero_left zero_neq_one add.right_inverse)

lemma BottomUp_call_present:
  assumes "\<forall>d \<in> present_dims c input_map. map_of (dim2weight c) d \<noteq> None"
  shows "BottomUp_call c input_map =
     (if total_weight c = 0 then Inl ZeroDivisionError
      else if total_weight c < 0 then
        Inr [(ChunkNode c, PyComplex (complex_of_real (weighted_evidence c input_map)
               / (complex_of_real (\<bar>total_weight c\<bar> powr (11 / 10)) * cis (pi * (11 / 10)))))]
      else Inr [(ChunkNode c, PyFloat (weighted_evidence c input_map / total_weight c powr (11 / 10)))])"
  using cis_11_10_nonzero
  by (simp add: BottomUp_call_def Let_def BottomUp_numerator_present [OF assms] py_pow_11_10
        total_weight_def [symmetric])

lemma BottomUp_call_KeyError:
  assumes "\<exists>d \<in> present_dims c input_map. map_of (dim2weight c) d = None"
  shows "BottomUp_call c input_map = Inl KeyError"
  by (simp add: BottomUp_call_def Let_def BottomUp_sum_KeyError [OF assms])

lemma present_dims_list:
  "present_dims c input_map =
     set (map dim (filter (\<lambda>f. input_map (FeatureNode f) \<noteq> None) (microfeatures c)))"
  by (auto simp: present_dims_def)

lemma present_dims_empty_input: "present_dims c Map.empty = {}"
  by (simp add: present_dims_def)

lemma wf_chunk_present:
  "wf_chunk c \<Longrightarrow> \<forall>d \<in> present_dims c input_map. map_of (dim2weight c) d \<noteq> None"
  unfolding wf_chunk_def present_dims_def by blast

lemmas fixture_defs = white_def black_def square_def circle_def chunk1_def chunk2_def chunk0_def
  chunk_w2_def sensory_input_1_def sensory_input_2_def sensory_input_3_def

lemma wf_chunk_cover:
  "wf_chunk c \<Longrightarrow> \<forall>f \<in> set (microfeatures c). map_of (dim2weight c) (dim f) \<noteq> None"
  unfolding wf_chunk_def by blast

lemma principal_power_11_10:
  "x \<noteq> 0 \<Longrightarrow> principal_power x (11 / 10) =
     (if 0 < x then complex_of_real (x powr (11 / 10))
      else complex_of_real (\<bar>x\<bar> powr (11 / 10)) * cis (pi * (11 / 10)))"
  by (simp add: principal_power_def)

text \<open>
  Claim C2, as amended. Let \<open>D\<close> be the dimensions that have a microfeature of the
  chunk present in the input, each with a weight. When the weights of the chunk have
  a nonzero sum the call returns the one-entry map from the chunk to its strength: the
  sum over \<open>D\<close> of the weight times the largest activation among the dimension's
  present microfeatures, divided by the sum of all weights of the chunk raised to 1.1
  (a float when that sum is positive, the complex principal value when it is
  negative); the strength is 0 when \<open>D\<close> is empty. When the weights sum to 0 the call
  raises ZeroDivisionError.
\<close>

theorem BottomUp_call_spec:
  assumes "\<forall>d \<in> present_dims c input_map. map_of (dim2weight c) d \<noteq> None"
  shows "(total_weight c \<noteq> 0 \<longrightarrow>
            (\<exists>s. BottomUp_call c input_map = Inr [(ChunkNode c, s)]
               \<and> to_complex s = complex_of_real (weighted_evidence c input_map)
                                   / principal_power (total_weight c) (11 / 10)
               \<and> (present_dims c input_map = {} \<longrightarrow> to_complex s = 0)))
       \<and> (0 < total_weight c \<longrightarrow>
            BottomUp_call c input_map =
              Inr [(ChunkNode c,
                    PyFloat (weighted_evidence c input_map / total_weight c powr (11 / 10)))])
       \<and> (0 < total_weight c \<and> present_dims c input_map = {} \<longrightarrow>
            BottomUp_call c input_map = Inr [(ChunkNode c, PyFloat 0)])
       \<and> (total_weight c = 0 \<longrightarrow> BottomUp_call c input_map = Inl ZeroDivisionError)"
proof -
  note eq = BottomUp_call_present [OF assms]
  have empty: "weighted_evidence c input_map = 0" if "present_dims c input_map = {}"
    using that by (simp add: weighted_evidence_def)
  have 1: "\<exists>s. BottomUp_call c input_map = Inr [(ChunkNode c, s)]
               \<and> to_complex s = complex_of_real (weighted_evidence c input_map)
                                   / principal_power (total_weight c) (11 / 10)
               \<and> (present_dims c input_map = {} \<longrightarrow> to_complex s = 0)"
    if "total_weight c \<noteq> 0"
    using that empty by (auto simp: eq principal_power_11_10)
  have 2: "BottomUp_call c input_map =
              Inr [(ChunkNode c,
                    PyFloat (weighted_evidence c input_map / total_weight c powr (11 / 10)))]"
    if "0 < total_weight c"
    using that by (simp add: eq)
  have 3: "BottomUp_call c input_map = Inr [(ChunkNode c, PyFloat 0)]"
    if "0 < total_weight c \<and> present_dims c input_map = {}"
    using that empty by (simp add: eq)
  have 4: "BottomUp_call c input_map = Inl ZeroDivisionError" if "total_weight c = 0"
    using that by (simp add: eq)
  from 1 2 3 4 show ?thesis by blast
qed

text \<open>
  The chunk without microfeatures on the empty input, and the chunk with weights 0 and
  0 on an input that holds its microfeatures: \<open>D\<close> is empty in the first case, and
  both calls raise ZeroDivisionError.
\<close>

theorem BottomUp_zero_weight_counterexample:
  "wf_chunk chunk0 \<and> present_dims chunk0 Map.empty = {}
   \<and> BottomUp_call chunk0 Map.empty = Inl ZeroDivisionError
   \<and> wf_chunk chunk_zero_weights
   \<and> BottomUp_call chunk_zero_weights sensory_input_2 = Inl ZeroDivisionError"
proof -
  have 1: "wf_chunk chunk0"
    by (simp add: wf_chunk_def chunk0_def)
  have 2: "present_dims chunk0 Map.empty = {}"
    by (rule present_dims_empty_input)
  have 3: "BottomUp_call chunk0 Map.empty = Inl ZeroDivisionError"
    by (simp add: BottomUp_call_def py_pow_11_10 chunk0_def)
  have 4: "wf_chunk chunk_zero_weights"
    by (simp add: wf_chunk_def chunk_zero_weights_def white_def square_def)
  have 5: "BottomUp_call chunk_zero_weights sensory_input_2 = Inl ZeroDivisionError"
    by (simp add: BottomUp_call_def BottomUp_step_def py_pow_11_10 chunk_zero_weights_def
          fixture_defs)
  show ?thesis by (intro conjI 1 2 3 4 5)
qed

lemma wf_chunk1: "wf_chunk chunk1"
  by (simp add: wf_chunk_def fixture_defs)

lemma BottomUp_chunk1_input2:
  "BottomUp_call chunk1 sensory_input_2 = Inr [(ChunkNode chunk1, PyFloat (2 / 2 powr (11 / 10)))]"
  by (simp add: BottomUp_call_def BottomUp_step_def py_pow_11_10 fixture_defs)

theorem BottomUp_call_spec_witness:
  "map_of (dim2weight chunk1) ''Color'' \<noteq> None \<and> map_of (dim2weight chunk1) ''Shape'' \<noteq> None
   \<and> present_dims chunk1 sensory_input_2 = {''Color'', ''Shape''}
   \<and> 0 < total_weight chunk1
   \<and> BottomUp_call chunk1 sensory_input_2
       = Inr [(ChunkNode chunk1, PyFloat (2 / 2 powr (11 / 10)))]
   \<and> weighted_evidence chunk1 sensory_input_2 = 2
   \<and> present_dims chunk1 Map.empty = {}
   \<and> BottomUp_call chunk1 Map.empty = Inr [(ChunkNode chunk1, PyFloat 0)]"
proof -
  have t: "total_weight chunk1 = 2"
    by (simp add: total_weight_def chunk1_def)
  have w: "map_of (dim2weight chunk1) ''Color'' \<noteq> None"
    "map_of (dim2weight chunk1) ''Shape'' \<noteq> None"
    by (simp_all add: chunk1_def)
  have pd: "present_dims chunk1 sensory_input_2 = {''Color'', ''Shape''}"
    by (auto simp: present_dims_list fixture_defs)
  have cov: "\<forall>d \<in> present_dims chunk1 sensory_input_2. map_of (dim2weight chunk1) d \<noteq> None"
    unfolding pd using w by simp
  have pos: "0 < total_weight chunk1" by (simp add: t)
  from BottomUp_call_spec [OF cov, THEN conjunct2, THEN conjunct1, THEN mp, OF pos]
  have "BottomUp_call chunk1 sensory_input_2 =
          Inr [(ChunkNode chunk1, PyFloat (weighted_evidence chunk1 sensory_input_2 / 2 powr (11 / 10)))]"
    by (simp add: t)
  with BottomUp_chunk1_input2 have ev: "weighted_evidence chunk1 sensory_input_2 = 2"
    by simp
  have pe: "present_dims chunk1 Map.empty = {}"
    by (rule present_dims_empty_input)
  have cov0: "\<forall>d \<in> present_dims chunk1 Map.empty. map_of (dim2weight chunk1) d \<noteq> None"
    unfolding pe by simp
  have p0: "0 < total_weight chunk1 \<and> present_dims chunk1 Map.empty = {}"
    using pos pe by simp
  have z: "BottomUp_call chunk1 Map.empty = Inr [(ChunkNode chunk1, PyFloat 0)]"
    by (rule BottomUp_call_spec [OF cov0, THEN conjunct2, THEN conjunct2, THEN conjunct1,
          THEN mp, OF p0])
  show ?thesis by (intro conjI w pd pos BottomUp_chunk1_input2 ev pe z)
qed

text \<open>
  Claim C10, as amended. The call has two operations that can fail: the read of the
  weight of a dimension that has a microfeature present in the input, and the final
  division. When such a dimension has no weight the call raises KeyError. Otherwise
  the call returns a one-entry map when the weights have a nonzero sum, and raises
  ZeroDivisionError when the sum is 0; so it does on the empty input when the sum is 0
  or the weight mapping is empty. On a chunk that satisfies the invariant of the data
  model every such dimension has a weight, and only the division can fail.
\<close>

theorem BottomUp_partiality:
  "((\<exists>d \<in> present_dims c input_map. map_of (dim2weight c) d = None) \<longrightarrow>
      BottomUp_call c input_map = Inl KeyError)
   \<and> ((\<forall>d \<in> present_dims c input_map. map_of (dim2weight c) d \<noteq> None)
        \<and> total_weight c \<noteq> 0 \<longrightarrow>
      (\<exists>s. BottomUp_call c input_map = Inr [(ChunkNode c, s)]))
   \<and> ((\<forall>d \<in> present_dims c input_map. map_of (dim2weight c) d \<noteq> None)
        \<and> total_weight c = 0 \<longrightarrow>
      BottomUp_call c input_map = Inl ZeroDivisionError)
   \<and> (total_weight c = 0 \<longrightarrow> BottomUp_call c Map.empty = Inl ZeroDivisionError)
   \<and> (dim2weight c = [] \<longrightarrow> BottomUp_call c Map.empty = Inl ZeroDivisionError)
   \<and> (wf_chunk c \<longrightarrow>
        (\<forall>d \<in> present_dims c input_map. map_of (dim2weight c) d \<noteq> None)
        \<and> BottomUp_call c input_map \<noteq> Inl KeyError)"
proof (intro conjI impI)
  assume "\<exists>d \<in> present_dims c input_map. map_of (dim2weight c) d = None"
  then show "BottomUp_call c input_map = Inl KeyError"
    by (rule BottomUp_call_KeyError)
next
  assume "(\<forall>d \<in> present_dims c input_map. map_of (dim2weight c) d \<noteq> None)
            \<and> total_weight c \<noteq> 0"
  then show "\<exists>s. BottomUp_call c input_map = Inr [(ChunkNode c, s)]"
    by (simp add: BottomUp_call_present)
next
  assume "(\<forall>d \<in> present_dims c input_map. map_of (dim2weight c) d \<noteq> None)
            \<and> total_weight c = 0"
  then show "BottomUp_call c input_map = Inl ZeroDivisionError"
    by (simp add: BottomUp_call_present)
next
  have cov: "\<forall>d \<in> present_dims c Map.empty. map_of (dim2weight c) d \<noteq> None"
    by (simp add: present_dims_empty_input)
  {
    assume "total_weight c = 0"
    then show "BottomUp_call c Map.empty = Inl ZeroDivisionError"
      by (simp add: BottomUp_call_present [OF cov])
  }
  {
    assume "dim2weight c = []"
    then have "total_weight c = 0" by (simp add: total_weight_def)
    then show "BottomUp_call c Map.empty = Inl ZeroDivisionError"
      by (simp add: BottomUp_call_present [OF cov])
  }
next
  assume wf: "wf_chunk c"
  then show "\<forall>d \<in> present_dims c input_map. map_of (dim2weight c) d \<noteq> None"
    by (rule wf_chunk_present)
  then show "BottomUp_call c input_map \<noteq> Inl KeyError"
    by (simp add: BottomUp_call_present)
qed

text \<open>
  A chunk with the microfeature white and a weight for the dimension Shape only: the
  weights sum to 1, and the call on an input that holds white raises KeyError.
\<close>

theorem BottomUp_unweighted_counterexample:
  "total_weight chunk_unweighted = 1
   \<and> BottomUp_call chunk_unweighted [FeatureNode white \<mapsto> 1] = Inl KeyError"
  by (simp add: total_weight_def BottomUp_call_def BottomUp_step_def chunk_unweighted_def
        white_def)

lemma wf_chunk0: "wf_chunk chunk0"
  by (simp add: wf_chunk_def chunk0_def)

theorem BottomUp_partiality_witness:
  "''Color'' \<in> present_dims chunk_unweighted [FeatureNode white \<mapsto> 2]
   \<and> map_of (dim2weight chunk_unweighted) ''Color'' = None
   \<and> BottomUp_call chunk_unweighted [FeatureNode white \<mapsto> 2] = Inl KeyError
   \<and> dim2weight chunk0 = [] \<and> total_weight chunk0 = 0
   \<and> BottomUp_call chunk0 Map.empty = Inl ZeroDivisionError
   \<and> wf_chunk chunk1 \<and> total_weight chunk1 \<noteq> 0
   \<and> (\<exists>s. BottomUp_call chunk1 sensory_input_1 = Inr [(ChunkNode chunk1, s)])
   \<and> BottomUp_call chunk1 sensory_input_1 \<noteq> Inl KeyError"
proof -
  have p: "''Color'' \<in> present_dims chunk_unweighted [FeatureNode white \<mapsto> 2]"
    by (simp add: present_dims_list chunk_unweighted_def white_def)
  have n: "map_of (dim2weight chunk_unweighted) ''Color'' = None"
    by (simp add: chunk_unweighted_def)
  have p': "\<exists>d \<in> present_dims chunk_unweighted [FeatureNode white \<mapsto> 2].
              map_of (dim2weight chunk_unweighted) d = None"
    by (rule bexI [of _ "''Color''"])
       (simp_all add: present_dims_list chunk_unweighted_def white_def)
  have k: "BottomUp_call chunk_unweighted [FeatureNode white \<mapsto> 2] = Inl KeyError"
    by (rule BottomUp_partiality [of chunk_unweighted "[FeatureNode white \<mapsto> 2]",
          THEN conjunct1, THEN mp, OF p'])
  have a: "dim2weight chunk0 = []" "total_weight chunk0 = 0"
    by (simp_all add: total_weight_def chunk0_def)
  have b: "total_weight chunk1 \<noteq> 0"
    by (simp add: total_weight_def chunk1_def)
  from BottomUp_partiality [of chunk0 Map.empty] a
  have 1: "BottomUp_call chunk0 Map.empty = Inl ZeroDivisionError" by blast
  from BottomUp_partiality [of chunk1 sensory_input_1] wf_chunk1 b
  have 2: "\<exists>s. BottomUp_call chunk1 sensory_input_1 = Inr [(ChunkNode chunk1, s)]"
    and 3: "BottomUp_call chunk1 sensory_input_1 \<noteq> Inl KeyError"
    by blast+
  show ?thesis by (intro conjI p n k a 1 wf_chunk1 b 2 3)
qed

lemma total_weight_set:
  assumes "distinct (map fst (dim2weight c))"
  shows "total_weight c = (\<Sum>p \<in> set (dim2weight c). snd p)"
proof -
  from assms have "distinct (dim2weight c)" by (simp add: distinct_map)
  then show ?thesis
    unfolding total_weight_def by (rule sum_list_distinct_conv_sum_set)
qed

lemma strength_order_independent:
  assumes "wf_chunk c" and "wf_chunk c'"
    and mf: "set (microfeatures c') = set (microfeatures c)"
    and dw: "set (dim2weight c') = set (dim2weight c)"
  shows "map_sum id (map snd) (BottomUp_call c' input_map)
         = map_sum id (map snd) (BottomUp_call c input_map)"
proof -
  from assms(1,2) have d: "distinct (map fst (dim2weight c))" "distinct (map fst (dim2weight c'))"
    by (simp_all add: wf_chunk_def)
  have tw: "total_weight c' = total_weight c"
    by (simp add: total_weight_set d dw)
  from d dw have "map_of (dim2weight c') = map_of (dim2weight c)"
    by (simp add: map_of_inject_set)
  then have w: "weight c' = weight c"
    by (simp add: weight_def fun_eq_iff)
  have pd: "present_dims c' input_map = present_dims c input_map"
    by (simp add: present_dims_def mf)
  have ma: "max_activation c' input_map = max_activation c input_map"
    by (simp add: max_activation_def mf fun_eq_iff)
  have ev: "weighted_evidence c' input_map = weighted_evidence c input_map"
    by (simp add: weighted_evidence_def w pd ma)
  show ?thesis
    by (simp add: BottomUp_call_eq [OF wf_chunk_cover [OF assms(1)]]
          BottomUp_call_eq [OF wf_chunk_cover [OF assms(2)]] tw ev)
qed

text \<open>
  Claim C8, as amended. With exactly two dimensions of equal weight \<open>w\<close>, all
  microfeatures present and largest activations \<open>a\<close> and \<open>b\<close>, the strength is
  \<open>w * (a + b) / (2 * w) powr 1.1\<close>. The strength does not depend on the order in
  which the microfeatures, and so the dimensions, and the weights are iterated.
\<close>

theorem BottomUp_two_equal_weights:
  assumes "wf_chunk c"
  shows "(dim2weight c = [(d1, w), (d2, w)] \<and> 0 < w
            \<and> dim ` set (microfeatures c) = {d1, d2}
            \<and> (\<forall>f \<in> set (microfeatures c). input_map (FeatureNode f) \<noteq> None)
          \<longrightarrow> BottomUp_call c input_map =
                Inr [(ChunkNode c,
                      PyFloat (w * (max_activation c input_map d1 + max_activation c input_map d2)
                               / (2 * w) powr (11 / 10)))])
       \<and> (wf_chunk c' \<and> set (microfeatures c') = set (microfeatures c)
            \<and> set (dim2weight c') = set (dim2weight c)
          \<longrightarrow> map_sum id (map snd) (BottomUp_call c' input_map)
                = map_sum id (map snd) (BottomUp_call c input_map))"
proof (intro conjI impI)
  assume h: "dim2weight c = [(d1, w), (d2, w)] \<and> 0 < w
            \<and> dim ` set (microfeatures c) = {d1, d2}
            \<and> (\<forall>f \<in> set (microfeatures c). input_map (FeatureNode f) \<noteq> None)"
  from assms h have ne: "d1 \<noteq> d2" by (auto simp: wf_chunk_def)
  from h have tw: "total_weight c = 2 * w" by (simp add: total_weight_def)
  from h have "present_dims c input_map = dim ` set (microfeatures c)"
    unfolding present_dims_def by (intro arg_cong [where f = "\<lambda>A. dim ` A"]) blast
  with h have pd: "present_dims c input_map = {d1, d2}" by simp
  from h ne have wt: "weight c d1 = w" "weight c d2 = w" by (simp_all add: weight_def)
  have ev: "weighted_evidence c input_map
            = w * (max_activation c input_map d1 + max_activation c input_map d2)"
    using ne by (simp add: weighted_evidence_def pd wt algebra_simps)
  from h tw have "0 < total_weight c" by simp
  then show "BottomUp_call c input_map =
                Inr [(ChunkNode c,
                      PyFloat (w * (max_activation c input_map d1 + max_activation c input_map d2)
                               / (2 * w) powr (11 / 10)))]"
    by (simp add: BottomUp_call_eq [OF wf_chunk_cover [OF assms]] ev tw)
next
  assume "wf_chunk c' \<and> set (microfeatures c') = set (microfeatures c)
            \<and> set (dim2weight c') = set (dim2weight c)"
  then show "map_sum id (map snd) (BottomUp_call c' input_map)
                = map_sum id (map snd) (BottomUp_call c input_map)"
    using strength_order_independent [OF assms, of c' input_map] by blast
qed

lemma max_activation_chunk_w2:
  "max_activation chunk_w2 sensory_input_2 ''Color'' = 1"
  "max_activation chunk_w2 sensory_input_2 ''Shape'' = 1"
  by (simp_all add: max_activation_def fixture_defs)

text \<open>
  With weight 2 on both dimensions and activations 1 and 1 the strength is
  \<open>4 / 4 powr 1.1\<close>, not \<open>(1 + 1) / (2 * 2) powr 1.1\<close>.
\<close>

theorem BottomUp_weight_two_counterexample:
  "wf_chunk chunk_w2
   \<and> dim2weight chunk_w2 = [(''Color'', 2), (''Shape'', 2)]
   \<and> max_activation chunk_w2 sensory_input_2 ''Color'' = 1
   \<and> max_activation chunk_w2 sensory_input_2 ''Shape'' = 1
   \<and> BottomUp_call chunk_w2 sensory_input_2
       = Inr [(ChunkNode chunk_w2, PyFloat (4 / 4 powr (11 / 10)))]
   \<and> BottomUp_call chunk_w2 sensory_input_2
       \<noteq> Inr [(ChunkNode chunk_w2, PyFloat ((1 + 1) / (2 * 2) powr (11 / 10)))]"
proof -
  have wf: "wf_chunk chunk_w2"
    by (simp add: wf_chunk_def fixture_defs)
  have dw: "dim2weight chunk_w2 = [(''Color'', 2), (''Shape'', 2)]"
    by (simp add: chunk_w2_def)
  have r: "BottomUp_call chunk_w2 sensory_input_2
       = Inr [(ChunkNode chunk_w2, PyFloat (4 / 4 powr (11 / 10)))]"
    by (simp add: BottomUp_call_def BottomUp_step_def py_pow_11_10 fixture_defs)
  have "(4::real) / 4 powr (11 / 10) \<noteq> 2 / 4 powr (11 / 10)"
    by simp
  then have n: "BottomUp_call chunk_w2 sensory_input_2
       \<noteq> Inr [(ChunkNode chunk_w2, PyFloat ((1 + 1) / (2 * 2) powr (11 / 10)))]"
    unfolding r by simp
  from wf dw max_activation_chunk_w2 r n show ?thesis by blast
qed

theorem BottomUp_two_equal_weights_witness:
  "wf_chunk chunk1
   \<and> dim2weight chunk1 = [(''Color'', 1), (''Shape'', 1)] \<and> (0::real) < 1
   \<and> dim ` set (microfeatures chunk1) = {''Color'', ''Shape''}
   \<and> sensory_input_1 (FeatureNode white) = Some 0
   \<and> sensory_input_1 (FeatureNode square) = Some 1
   \<and> BottomUp_call chunk1 sensory_input_1 =
        Inr [(ChunkNode chunk1,
              PyFloat (1 * (max_activation chunk1 sensory_input_1 ''Color''
                            + max_activation chunk1 sensory_input_1 ''Shape'')
                       / (2 * 1) powr (11 / 10)))]
   \<and> wf_chunk chunk1_reordered
   \<and> set (microfeatures chunk1_reordered) = set (microfeatures chunk1)
   \<and> set (dim2weight chunk1_reordered) = set (dim2weight chunk1)
   \<and> map_sum id (map snd) (BottomUp_call chunk1_reordered sensory_input_1)
       = map_sum id (map snd) (BottomUp_call chunk1 sensory_input_1)"
proof -
  have h1: "dim2weight chunk1 = [(''Color'', 1), (''Shape'', 1)]"
    by (simp add: chunk1_def)
  have h2: "dim ` set (microfeatures chunk1) = {''Color'', ''Shape''}"
    by (simp add: fixture_defs)
  have h3: "sensory_input_1 (FeatureNode white) = Some 0"
    "sensory_input_1 (FeatureNode square) = Some 1"
    by (simp_all add: fixture_defs)
  then have h4: "\<forall>f \<in> set (microfeatures chunk1). sensory_input_1 (FeatureNode f) \<noteq> None"
    by (simp add: chunk1_def)
  have g1: "wf_chunk chunk1_reordered"
    by (simp add: wf_chunk_def chunk1_reordered_def fixture_defs)
  have g2: "set (microfeatures chunk1_reordered) = set (microfeatures chunk1)"
    "set (dim2weight chunk1_reordered) = set (dim2weight chunk1)"
    by (auto simp: chunk1_reordered_def chunk1_def)
  note th = BottomUp_two_equal_weights [OF wf_chunk1,
      where ?d1.0 = "''Color''" and ?d2.0 = "''Shape''" and w = 1
        and input_map = sensory_input_1 and c' = chunk1_reordered]
  have p1: "dim2weight chunk1 = [(''Color'', 1), (''Shape'', 1)] \<and> (0::real) < 1
            \<and> dim ` set (microfeatures chunk1) = {''Color'', ''Shape''}
            \<and> (\<forall>f \<in> set (microfeatures chunk1). sensory_input_1 (FeatureNode f) \<noteq> None)"
    using h1 h2 h4 by simp
  have c1: "BottomUp_call chunk1 sensory_input_1 =
        Inr [(ChunkNode chunk1,
              PyFloat (1 * (max_activation chunk1 sensory_input_1 ''Color''
                            + max_activation chunk1 sensory_input_1 ''Shape'')
                       / (2 * 1) powr (11 / 10)))]"
    by (rule th [THEN conjunct1, THEN mp, OF p1])
  have p2: "wf_chunk chunk1_reordered
            \<and> set (microfeatures chunk1_reordered) = set (microfeatures chunk1)
            \<and> set (dim2weight chunk1_reordered) = set (dim2weight chunk1)"
    using g1 g2 by simp
  have c2: "map_sum id (map snd) (BottomUp_call chunk1_reordered sensory_input_1)
       = map_sum id (map snd) (BottomUp_call chunk1 sensory_input_1)"
    by (rule th [THEN conjunct2, THEN mp, OF p2])
  show ?thesis
    by (intro conjI wf_chunk1 h1 h2 h3 c1 g1 g2 c2) simp
qed

section \<open>Properties of Rule\<close>

lemma Rule_loop_sum:
  assumes "\<forall>c \<in> set cs. map_of (chunk2weight r) c \<noteq> None"
  shows "Rule_loop r input_map s cs =
           s + (\<Sum>c\<leftarrow>cs. the (map_of (chunk2weight r) c) * activation_or_zero input_map c)"
  using assms
proof (induction cs arbitrary: s)
  case Nil
  then show ?case by simp
next
  case (Cons c cs)
  then obtain w where "map_of (chunk2weight r) c = Some w" by auto
  with Cons show ?case
    by (simp add: activation_or_zero_def algebra_simps split: option.splits)
qed

lemma sum_list_keys:
  assumes "distinct (map fst ps)"
  shows "(\<Sum>c\<leftarrow>map fst ps. the (map_of ps c) * g c) = (\<Sum>(c, w)\<leftarrow>ps. w * g c)"
proof -
  have "the (map_of ps (fst p)) * g (fst p) = (case p of (c, w) \<Rightarrow> w * g c)"
    if "p \<in> set ps" for p
  proof (cases p)
    case (Pair c w)
    with that assms have "map_of ps c = Some w" by simp
    with Pair show ?thesis by simp
  qed
  then have "map (\<lambda>p. the (map_of ps (fst p)) * g (fst p)) ps = map (\<lambda>(c, w). w * g c) ps"
    by (intro map_cong refl)
  then have "sum_list (map (\<lambda>p. the (map_of ps (fst p)) * g (fst p)) ps)
             = sum_list (map (\<lambda>(c, w). w * g c) ps)"
    by (rule arg_cong)
  then show ?thesis by (simp add: comp_def)
qed

text \<open>
  Claim C4. A rule maps every input to the one-entry map from its conclusion chunk to
  the sum, over the condition chunks, of the weight times the input's activation, a
  condition chunk absent from the input counting 0. With two condition chunks of
  weight 0.5 the inputs (0, 0), (0, 1), (0.5, 1) and (1, 1) give 0, 0.5, 0.75 and 1.
\<close>

theorem Rule_call_spec:
  assumes "distinct (map fst (chunk2weight r))"
  shows "Rule_call r input_map =
           [(ChunkNode (conclusion_chunk r),
             \<Sum>(c, w)\<leftarrow>chunk2weight r. w * activation_or_zero input_map c)]
       \<and> Rule_call test_rule [ChunkNode mock_chunk_1 \<mapsto> 0, ChunkNode mock_chunk_2 \<mapsto> 0]
           = [(ChunkNode mock_chunk_3, 0)]
       \<and> Rule_call test_rule [ChunkNode mock_chunk_1 \<mapsto> 0, ChunkNode mock_chunk_2 \<mapsto> 1]
           = [(ChunkNode mock_chunk_3, 1 / 2)]
       \<and> Rule_call test_rule [ChunkNode mock_chunk_1 \<mapsto> 1 / 2, ChunkNode mock_chunk_2 \<mapsto> 1]
           = [(ChunkNode mock_chunk_3, 3 / 4)]
       \<and> Rule_call test_rule [ChunkNode mock_chunk_1 \<mapsto> 1, ChunkNode mock_chunk_2 \<mapsto> 1]
           = [(ChunkNode mock_chunk_3, 1)]"
proof -
  have cov: "\<forall>c \<in> set (map fst (chunk2weight r)). map_of (chunk2weight r) c \<noteq> None"
    by (simp add: map_of_eq_None_iff)
  have "Rule_loop r input_map 0 (map fst (chunk2weight r))
          = 0 + (\<Sum>c\<leftarrow>map fst (chunk2weight r).
                  the (map_of (chunk2weight r) c) * activation_or_zero input_map c)"
    by (rule Rule_loop_sum [OF cov])
  also have "\<dots> = (\<Sum>(c, w)\<leftarrow>chunk2weight r. w * activation_or_zero input_map c)"
    using sum_list_keys [OF assms, of "activation_or_zero input_map"] by simp
  finally have "Rule_call r input_map =
           [(ChunkNode (conclusion_chunk r),
             \<Sum>(c, w)\<leftarrow>chunk2weight r. w * activation_or_zero input_map c)]"
    by (simp add: Rule_call_def)
  moreover have "Rule_call test_rule [ChunkNode mock_chunk_1 \<mapsto> 0, ChunkNode mock_chunk_2 \<mapsto> 0]
           = [(ChunkNode mock_chunk_3, 0)]"
    by (simp add: Rule_call_def test_rule_def mock_chunk_1_def mock_chunk_2_def mock_chunk_3_def)
  moreover have "Rule_call test_rule [ChunkNode mock_chunk_1 \<mapsto> 0, ChunkNode mock_chunk_2 \<mapsto> 1]
           = [(ChunkNode mock_chunk_3, 1 / 2)]"
    by (simp add: Rule_call_def test_rule_def mock_chunk_1_def mock_chunk_2_def mock_chunk_3_def)
  moreover have "Rule_call test_rule [ChunkNode mock_chunk_1 \<mapsto> 1 / 2, ChunkNode mock_chunk_2 \<mapsto> 1]
           = [(ChunkNode mock_chunk_3, 3 / 4)]"
    by (simp add: Rule_call_def test_rule_def mock_chunk_1_def mock_chunk_2_def mock_chunk_3_def)
  moreover have "Rule_call test_rule [ChunkNode mock_chunk_1 \<mapsto> 1, ChunkNode mock_chunk_2 \<mapsto> 1]
           = [(ChunkNode mock_chunk_3, 1)]"
    by (simp add: Rule_call_def test_rule_def mock_chunk_1_def mock_chunk_2_def mock_chunk_3_def)
  ultimately show ?thesis by blast
qed

theorem Rule_call_spec_witness:
  "distinct (map fst (chunk2weight test_rule))
   \<and> Rule_call test_rule [ChunkNode mock_chunk_2 \<mapsto> 1, ChunkNode mock_chunk_3 \<mapsto> 1]
       = [(ChunkNode mock_chunk_3, 1 / 2)]"
proof -
  have d: "distinct (map fst (chunk2weight test_rule))"
    by (simp add: test_rule_def mock_chunk_1_def mock_chunk_2_def)
  from Rule_call_spec [OF d, of "[ChunkNode mock_chunk_2 \<mapsto> 1, ChunkNode mock_chunk_3 \<mapsto> 1]"]
  have "Rule_call test_rule [ChunkNode mock_chunk_2 \<mapsto> 1, ChunkNode mock_chunk_3 \<mapsto> 1]
       = [(ChunkNode (conclusion_chunk test_rule),
             \<Sum>(c, w)\<leftarrow>chunk2weight test_rule.
                w * activation_or_zero [ChunkNode mock_chunk_2 \<mapsto> 1, ChunkNode mock_chunk_3 \<mapsto> 1] c)]"
    by (rule conjunct1)
  also have "\<dots> = [(ChunkNode mock_chunk_3, 1 / 2)]"
    by (simp add: activation_or_zero_def test_rule_def mock_chunk_1_def mock_chunk_2_def
          mock_chunk_3_def)
  finally show ?thesis using d by simp
qed

section \<open>Properties of MaxJunction\<close>

lemma votes_Nil: "votes [] n = {}"
  by (simp add: votes_def)

lemma votes_Cons:
  "votes (m # ms) n =
     (case map_of m n of None \<Rightarrow> votes ms n | Some v \<Rightarrow> insert v (votes ms n))"
  by (auto simp: votes_def split: option.splits)

lemma finite_votes: "finite (votes ms n)"
  by (induction ms) (simp_all add: votes_Nil votes_Cons split: option.splits)

lemma MaxJunction_step_lookup:
  "map_of (MaxJunction_step acts n m) k =
     (if k = n then
        (case map_of m n of
           None \<Rightarrow> map_of acts n
         | Some v \<Rightarrow> (case map_of acts n of None \<Rightarrow> Some v | Some cur \<Rightarrow> Some (max cur v)))
      else map_of acts k)"
  by (auto simp: MaxJunction_step_def update_conv' max_def split: option.splits)

lemma MaxJunction_node_other:
  "k \<noteq> n \<Longrightarrow> map_of (MaxJunction_node acts n ms) k = map_of acts k"
  by (induction ms arbitrary: acts) (simp_all add: MaxJunction_step_lookup)

lemma MaxJunction_node_same:
  "map_of (MaxJunction_node acts n ms) n =
     (case map_of acts n of
        None \<Rightarrow> if votes ms n = {} then None else Some (Max (votes ms n))
      | Some cur \<Rightarrow> Some (Max (insert cur (votes ms n))))"
proof (induction ms arbitrary: acts)
  case Nil
  then show ?case by (simp add: votes_Nil split: option.splits)
next
  case (Cons m ms)
  have fin: "finite (votes ms n)" by (rule finite_votes)
  show ?case
    using fin
    by (auto simp: Cons.IH votes_Cons MaxJunction_step_lookup Max_insert_max
          split: option.splits)
qed

lemma MaxJunction_step_distinct:
  "distinct (map fst acts) \<Longrightarrow> distinct (map fst (MaxJunction_step acts n m))"
  by (simp add: MaxJunction_step_def distinct_update split: option.splits)

lemma MaxJunction_node_distinct:
  "distinct (map fst acts) \<Longrightarrow> distinct (map fst (MaxJunction_node acts n ms))"
  by (induction ms arbitrary: acts) (simp_all add: MaxJunction_step_distinct)

lemma MaxJunction_loop_distinct:
  "distinct (map fst acts) \<Longrightarrow> distinct (map fst (MaxJunction_loop acts ns ms))"
  by (induction ns arbitrary: acts) (simp_all add: MaxJunction_node_distinct)

lemma MaxJunction_loop_lookup:
  assumes "distinct ns"
  shows "map_of (MaxJunction_loop acts ns ms) k =
     (if k \<in> set ns then
        (case map_of acts k of
           None \<Rightarrow> if votes ms k = {} then None else Some (Max (votes ms k))
         | Some cur \<Rightarrow> Some (Max (insert cur (votes ms k))))
      else map_of acts k)"
  using assms
proof (induction ns arbitrary: acts)
  case Nil
  then show ?case by simp
next
  case (Cons n ns)
  then have d: "distinct ns" and nn: "n \<notin> set ns" by simp_all
  show ?case
  proof (cases "n = k")
    case True
    with nn show ?thesis
      by (simp add: Cons.IH [OF d] MaxJunction_node_same)
  next
    case False
    then have "k \<noteq> n" by simp
    then show ?thesis
      by (simp add: Cons.IH [OF d] MaxJunction_node_other)
  qed
qed

lemma set_get_nodes: "set (get_nodes ms) = (\<Union>m \<in> set ms. fst ` set m)"
  by (auto simp: get_nodes_def)

lemma votes_nonempty_iff: "votes ms n \<noteq> {} \<longleftrightarrow> n \<in> (\<Union>m \<in> set ms. fst ` set m)"
proof -
  have "votes ms n \<noteq> {} \<longleftrightarrow> (\<exists>m \<in> set ms. map_of m n \<noteq> None)"
    by (auto simp: votes_def)
  also have "\<dots> \<longleftrightarrow> (\<exists>m \<in> set ms. n \<in> fst ` set m)"
    by (simp add: map_of_eq_None_iff)
  finally show ?thesis by simp
qed

lemma MaxJunction_call_lookup:
  "map_of (MaxJunction_call ms) n =
     (if n \<in> (\<Union>m \<in> set ms. fst ` set m) then Some (Max (votes ms n)) else None)"
proof -
  have d: "distinct (get_nodes ms)" by (simp add: get_nodes_def)
  show ?thesis
    using votes_nonempty_iff [of ms n]
    by (auto simp: MaxJunction_call_def MaxJunction_loop_lookup [OF d] set_get_nodes)
qed

text \<open>
  Claim C3. The key set of the result is the union of the key sets of the input maps,
  and the value at a key is the maximum of the key's values over the input maps that
  hold the key.
\<close>

theorem MaxJunction_call_spec:
  "fst ` set (MaxJunction_call input_maps) = (\<Union>m \<in> set input_maps. fst ` set m)
   \<and> distinct (map fst (MaxJunction_call input_maps))
   \<and> (\<forall>n \<in> (\<Union>m \<in> set input_maps. fst ` set m).
         map_of (MaxJunction_call input_maps) n =
           Some (Max {v. \<exists>m \<in> set input_maps. map_of m n = Some v}))"
proof (intro conjI ballI)
  show "fst ` set (MaxJunction_call input_maps) = (\<Union>m \<in> set input_maps. fst ` set m)"
  proof -
    have "n \<in> fst ` set (MaxJunction_call input_maps)
            \<longleftrightarrow> n \<in> (\<Union>m \<in> set input_maps. fst ` set m)" for n
    proof -
      have "n \<in> fst ` set (MaxJunction_call input_maps)
              \<longleftrightarrow> map_of (MaxJunction_call input_maps) n \<noteq> None"
        by (simp add: map_of_eq_None_iff)
      also have "\<dots> \<longleftrightarrow> n \<in> (\<Union>m \<in> set input_maps. fst ` set m)"
        by (simp only: MaxJunction_call_lookup) simp
      finally show ?thesis .
    qed
    then show ?thesis by blast
  qed
  show "distinct (map fst (MaxJunction_call input_maps))"
    unfolding MaxJunction_call_def by (rule MaxJunction_loop_distinct) simp
  fix n assume "n \<in> (\<Union>m \<in> set input_maps. fst ` set m)"
  then show "map_of (MaxJunction_call input_maps) n =
           Some (Max {v. \<exists>m \<in> set input_maps. map_of m n = Some v})"
    by (simp only: MaxJunction_call_lookup votes_def if_True)
qed

theorem MaxJunction_call_spec_witness:
  "fst ` set (MaxJunction_call [[(''a'', 1), (''b'', 2)], [(''b'', 3), (''c'', 0)], [(''b'', 1)]])
     = {''a'', ''b'', ''c''}
   \<and> ''b'' \<in> (\<Union>m \<in> set [[(''a'', 1), (''b'', 2)], [(''b'', 3), (''c'', 0::real)], [(''b'', 1)]]. fst ` set m)
   \<and> map_of (MaxJunction_call [[(''a'', 1), (''b'', 2)], [(''b'', 3), (''c'', 0)], [(''b'', 1)]]) ''b''
     = Some 3"
proof -
  let ?ms = "[[(''a'', 1), (''b'', 2)], [(''b'', 3), (''c'', 0::real)], [(''b'', 1)]]"
  note th = MaxJunction_call_spec [of ?ms]
  have k: "(\<Union>m \<in> set ?ms. fst ` set m) = {''a'', ''b'', ''c''}" by auto
  have b: "''b'' \<in> (\<Union>m \<in> set ?ms. fst ` set m)" by simp
  have "{v. \<exists>m \<in> set ?ms. map_of m ''b'' = Some v} = {2, 3, 1}" by auto
  then have m: "Max {v. \<exists>m \<in> set ?ms. map_of m ''b'' = Some v} = 3" by simp
  from th have 1: "fst ` set (MaxJunction_call ?ms) = {''a'', ''b'', ''c''}"
    unfolding k by (rule conjunct1)
  from th have "\<forall>n \<in> (\<Union>m \<in> set ?ms. fst ` set m).
         map_of (MaxJunction_call ?ms) n = Some (Max {v. \<exists>m \<in> set ?ms. map_of m n = Some v})"
    by (elim conjE)
  from bspec [OF this b] m have 2: "map_of (MaxJunction_call ?ms) ''b'' = Some 3"
    by simp
  show ?thesis by (intro conjI 1 b 2)
qed

section \<open>Properties of BLA\<close>

lemma cis_pi_int: "cis (pi * of_int k) = (if even k then 1 else - 1)"
proof -
  have c: "cos (pi * of_int k) = (if even k then 1 else - 1)"
    by (simp add: cos_npi_int)
  have s: "sin (pi * of_int k) = 0"
    by (simp add: sin_zero_iff_int2)
  show ?thesis
    by (simp add: complex_eq_iff c s)
qed

lemma py_pow_error_iff: "py_pow x y = Inl e \<longleftrightarrow> x = 0 \<and> y < 0 \<and> e = ZeroDivisionError"
  by (auto simp: py_pow_def)

lemma py_pow_value:
  assumes "py_pow x y = Inr v"
  shows "to_complex v = principal_power x y"
proof (cases "x < 0 \<and> y \<noteq> 0 \<and> y = of_int \<lfloor>y\<rfloor>")
  case True
  then have "cis (pi * y) = (if even \<lfloor>y\<rfloor> then 1 else - 1)"
    using cis_pi_int [of "\<lfloor>y\<rfloor>"] by simp
  with True assms show ?thesis
    by (auto simp: py_pow_def principal_power_def split: if_splits)
next
  case False
  with assms show ?thesis
    by (auto simp: py_pow_def principal_power_def split: if_splits)
qed

lemma py_pow_positive: "0 < x \<Longrightarrow> py_pow x y = Inr (PyFloat (x powr y))"
  by (simp add: py_pow_def)

lemma to_complex_py_add: "to_complex (py_add a b) = to_complex a + to_complex b"
  by (cases a; cases b) simp_all

lemma to_complex_py_mul: "to_complex (py_mul a b) = to_complex a * to_complex b"
  by (cases a; cases b) simp_all

lemma to_complex_foldl:
  "to_complex (foldl py_add a xs) = to_complex a + sum_list (map to_complex xs)"
  by (induction xs arbitrary: a) (simp_all add: to_complex_py_add add.assoc)

lemma to_complex_py_sum: "to_complex (py_sum xs) = sum_list (map to_complex xs)"
  by (simp add: py_sum_def to_complex_foldl)

lemma foldl_py_add_floats:
  "foldl py_add (PyFloat a) (map PyFloat rs) = PyFloat (a + sum_list rs)"
  by (induction rs arbitrary: a) (simp_all add: add.assoc)

lemma py_sum_floats: "py_sum (map PyFloat rs) = PyFloat (sum_list rs)"
  by (simp add: py_sum_def foldl_py_add_floats)

lemma py_sum_float_terms:
  "py_sum (map (\<lambda>t. PyFloat (f t)) ts) = PyFloat (\<Sum>t\<leftarrow>ts. f t)"
  using py_sum_floats [of "map f ts"] by (simp add: comp_def)

lemma summation_terms_total:
  assumes "\<forall>t \<in> set ts. t \<noteq> now \<or> dr \<le> 0"
  shows "\<exists>xs. summation_terms now dr ts = Inr xs
           \<and> map to_complex xs = map (\<lambda>t. principal_power (now - t) (- dr)) ts"
  using assms
proof (induction ts)
  case Nil
  then show ?case by simp
next
  case (Cons t ts)
  then obtain xs where xs: "summation_terms now dr ts = Inr xs"
    "map to_complex xs = map (\<lambda>t. principal_power (now - t) (- dr)) ts"
    by auto
  from Cons.prems have "\<not> (now - t = 0 \<and> - dr < 0)" by auto
  then obtain x where x: "py_pow (now - t) (- dr) = Inr x"
    using py_pow_error_iff [of "now - t" "- dr"] by (cases "py_pow (now - t) (- dr)") auto
  from py_pow_value [OF x] xs x show ?case by simp
qed

lemma summation_terms_floats:
  assumes "\<forall>t \<in> set ts. t < now"
  shows "summation_terms now dr ts = Inr (map (\<lambda>t. PyFloat ((now - t) powr (- dr))) ts)"
  using assms by (induction ts) (simp_all add: py_pow_positive)

lemma summation_terms_fails:
  assumes "now \<in> set ts" and "0 < dr"
  shows "summation_terms now dr ts = Inl ZeroDivisionError"
  using assms(1)
proof (induction ts)
  case Nil
  then show ?case by simp
next
  case (Cons t ts)
  show ?case
  proof (cases "t = now")
    case True
    with assms(2) show ?thesis by (simp add: py_pow_def)
  next
    case False
    with Cons have "summation_terms now dr ts = Inl ZeroDivisionError" by simp
    moreover from False assms(2) obtain x where "py_pow (now - t) (- dr) = Inr x"
      using py_pow_error_iff [of "now - t" "- dr"] by (cases "py_pow (now - t) (- dr)") auto
    ultimately show ?thesis by simp
  qed
qed

text \<open>
  Claim C5, as amended. When the query time differs from every recorded timestamp the
  call returns the initial activation plus the amplitude times the sum of the powers
  \<open>(now - t)\<close> to the \<open>- decay_rate\<close> (a float when every timestamp is earlier than the
  query time). When the decay rate is positive and the query time equals a recorded
  timestamp the call raises ZeroDivisionError; when the decay rate is not positive
  the call returns at every query time.
\<close>

theorem compute_bla_spec:
  "((\<forall>t \<in> set (timestamps b). t \<noteq> now) \<longrightarrow>
      (\<exists>v. compute_bla b now = Inr v
         \<and> to_complex v = complex_of_real (initial_activation b)
             + complex_of_real (amplitude b)
               * (\<Sum>t\<leftarrow>timestamps b. principal_power (now - t) (- decay_rate b))))
   \<and> ((\<forall>t \<in> set (timestamps b). t < now) \<longrightarrow>
        compute_bla b now =
          Inr (PyFloat (initial_activation b
                 + amplitude b * (\<Sum>t\<leftarrow>timestamps b. (now - t) powr (- decay_rate b)))))
   \<and> (0 < decay_rate b \<and> now \<in> set (timestamps b) \<longrightarrow>
        compute_bla b now = Inl ZeroDivisionError)
   \<and> (decay_rate b \<le> 0 \<longrightarrow> (\<exists>v. compute_bla b now = Inr v))"
proof (intro conjI impI)
  assume "\<forall>t \<in> set (timestamps b). t \<noteq> now"
  then have "\<forall>t \<in> set (timestamps b). t \<noteq> now \<or> decay_rate b \<le> 0" by blast
  from summation_terms_total [OF this] obtain xs where
    xs: "summation_terms now (decay_rate b) (timestamps b) = Inr xs"
    "map to_complex xs = map (\<lambda>t. principal_power (now - t) (- decay_rate b)) (timestamps b)"
    by blast
  then show "\<exists>v. compute_bla b now = Inr v
         \<and> to_complex v = complex_of_real (initial_activation b)
             + complex_of_real (amplitude b)
               * (\<Sum>t\<leftarrow>timestamps b. principal_power (now - t) (- decay_rate b))"
    by (simp add: compute_bla_def to_complex_py_add to_complex_py_mul to_complex_py_sum)
next
  assume a: "\<forall>t \<in> set (timestamps b). t < now"
  show "compute_bla b now =
          Inr (PyFloat (initial_activation b
                 + amplitude b * (\<Sum>t\<leftarrow>timestamps b. (now - t) powr (- decay_rate b))))"
    by (simp add: compute_bla_def summation_terms_floats [OF a] py_sum_float_terms)
next
  assume "0 < decay_rate b \<and> now \<in> set (timestamps b)"
  then show "compute_bla b now = Inl ZeroDivisionError"
    by (simp add: compute_bla_def summation_terms_fails)
next
  assume "decay_rate b \<le> 0"
  then have "\<forall>t \<in> set (timestamps b). t \<noteq> now \<or> decay_rate b \<le> 0" by blast
  from summation_terms_total [OF this] obtain xs where
    "summation_terms now (decay_rate b) (timestamps b) = Inr xs" by blast
  then show "\<exists>v. compute_bla b now = Inr v"
    by (simp add: compute_bla_def)
qed

text \<open>
  With decay rate 0 the query at the recorded timestamp returns: the power with
  exponent 0 is 1.
\<close>

theorem compute_bla_no_decay_counterexample:
  "timestamps no_decay_bla = [0] \<and> decay_rate no_decay_bla = 0
   \<and> compute_bla no_decay_bla 0 = Inr (PyFloat 2)"
  by (simp add: no_decay_bla_def bla_update_def BLA_init_def compute_bla_def py_pow_def
        py_sum_def)

theorem compute_bla_spec_witness:
  "timestamps test_bla = [0, 3 / 2] \<and> decay_rate test_bla = 1 / 2
   \<and> (0::real) < 2 \<and> (3 / 2 :: real) < 2
   \<and> compute_bla test_bla 2 = Inr (PyFloat (2 * (2 powr (- (1 / 2)) + (1 / 2) powr (- (1 / 2)))))
   \<and> compute_bla test_bla (3 / 2) = Inl ZeroDivisionError"
proof -
  have ts: "timestamps test_bla = [0, 3 / 2]"
    and dr: "decay_rate test_bla = 1 / 2"
    and ia: "initial_activation test_bla = 0"
    and am: "amplitude test_bla = 2"
    by (simp_all add: test_bla_def bla_update_def BLA_init_def)
  note th = compute_bla_spec [of test_bla]
  have p1: "\<forall>t \<in> set (timestamps test_bla). t < 2" by (simp add: ts)
  from th [of 2, THEN conjunct2, THEN conjunct1, THEN mp, OF p1]
  have 1: "compute_bla test_bla 2
            = Inr (PyFloat (2 * (2 powr (- (1 / 2)) + (1 / 2) powr (- (1 / 2)))))"
    by (simp add: ts dr ia am)
  have p2: "0 < decay_rate test_bla \<and> 3 / 2 \<in> set (timestamps test_bla)"
    by (simp add: ts dr)
  from th [of "3 / 2", THEN conjunct2, THEN conjunct2, THEN conjunct1, THEN mp, OF p2]
  have 2: "compute_bla test_bla (3 / 2) = Inl ZeroDivisionError" .
  show ?thesis by (intro conjI ts dr 1 2) simp_all
qed

section \<open>Properties of BoltzmannSelector\<close>

lemma boltzmann_term_pos: "0 < boltzmann_term T c2s c"
  by (simp add: boltzmann_term_def split: option.splits)

lemma Boltzmann_terms_total:
  assumes "T \<noteq> 0"
  shows "\<exists>terms'. Boltzmann_terms T c2s terms divisor cs
            = Inr (terms', divisor + (\<Sum>c\<leftarrow>cs. boltzmann_term T c2s c))
          \<and> (\<forall>c \<in> set cs. map_of terms' c = Some (boltzmann_term T c2s c))
          \<and> (\<forall>c. c \<notin> set cs \<longrightarrow> map_of terms' c = map_of terms c)"
proof (induction cs arbitrary: terms divisor)
  case Nil
  then show ?case by simp
next
  case (Cons c cs)
  let ?t = "boltzmann_term T c2s c"
  from Cons [of "AList.update c ?t terms" "divisor + ?t"] obtain terms' where
    r: "Boltzmann_terms T c2s (AList.update c ?t terms) (divisor + ?t) cs
          = Inr (terms', divisor + ?t + (\<Sum>c\<leftarrow>cs. boltzmann_term T c2s c))"
    and v: "\<forall>c \<in> set cs. map_of terms' c = Some (boltzmann_term T c2s c)"
    and o: "\<forall>k. k \<notin> set cs \<longrightarrow> map_of terms' k = map_of (AList.update c ?t terms) k"
    by blast
  have 1: "Boltzmann_terms T c2s terms divisor (c # cs)
            = Inr (terms', divisor + (\<Sum>c\<leftarrow>c # cs. boltzmann_term T c2s c))"
    using r assms by (simp add: boltzmann_term_def add.assoc split: option.splits)
  have 2: "map_of terms' k = Some (boltzmann_term T c2s k)" if "k \<in> set (c # cs)" for k
  proof (cases "k \<in> set cs")
    case True
    with v show ?thesis by blast
  next
    case False
    with that have "k = c" by simp
    with False o show ?thesis by (simp add: update_conv')
  qed
  have 3: "map_of terms' k = map_of terms k" if "k \<notin> set (c # cs)" for k
    using that o by (simp add: update_conv')
  from 1 2 3 show ?case by blast
qed

lemma Boltzmann_probabilities_total:
  assumes "\<forall>c \<in> set cs. map_of terms c = Some (f c)" and "divisor \<noteq> 0"
  shows "Boltzmann_probabilities terms divisor cs = Inr (map (\<lambda>c. f c / divisor) cs)"
  using assms by (induction cs) simp_all

lemma sum_list_pos_nonempty:
  fixes f :: "'a \<Rightarrow> real"
  assumes "\<forall>x \<in> set xs. 0 < f x" and "xs \<noteq> []"
  shows "0 < sum_list (map f xs)"
  using assms
proof (induction xs)
  case Nil
  then show ?case by simp
next
  case (Cons x xs)
  then have "0 < f x" by simp
  moreover from Cons.prems have "0 \<le> sum_list (map f xs)"
    by (intro sum_list_nonneg) auto
  ultimately show ?case by simp
qed

lemma sum_list_quotients:
  fixes f :: "'a \<Rightarrow> real"
  shows "(\<Sum>x\<leftarrow>xs. f x / d) = (\<Sum>x\<leftarrow>xs. f x) / d"
  by (induction xs) (simp_all add: add_divide_distrib)

lemma outcomes_zip:
  "map (\<lambda>(choice, p). ({choice}, p)) (zip cs (map h cs)) = map (\<lambda>c. ({c}, h c)) cs"
  by (induction cs) simp_all

text \<open>
  Claim C6. For a non-empty list of candidates and a positive temperature the call
  succeeds; its outcomes are the singletons of the candidates, one per candidate; the
  probability of a candidate is its term (\<open>exp (strength / T)\<close> for a key of the input,
  1 otherwise) divided by the sum of the terms of all candidates; the probabilities
  are positive and sum to 1.
\<close>

theorem BoltzmannSelector_call_spec:
  assumes "chunks sel \<noteq> []" and "0 < temperature sel"
  shows "\<exists>outcomes. BoltzmannSelector_call sel chunk2strength = Inr outcomes
     \<and> map fst outcomes = map (\<lambda>c. {c}) (chunks sel)
     \<and> map snd outcomes =
         map (\<lambda>c. boltzmann_term (temperature sel) chunk2strength c
                   / (\<Sum>c'\<leftarrow>chunks sel. boltzmann_term (temperature sel) chunk2strength c'))
             (chunks sel)
     \<and> sum_list (map snd outcomes) = 1
     \<and> (\<forall>p \<in> set (map snd outcomes). 0 < p)"
proof -
  let ?T = "temperature sel"
  let ?f = "boltzmann_term ?T chunk2strength"
  let ?D = "\<Sum>c\<leftarrow>chunks sel. ?f c"
  let ?ps = "map (\<lambda>c. ?f c / ?D) (chunks sel)"
  from assms(2) have T: "?T \<noteq> 0" by simp
  from Boltzmann_terms_total [OF T, of chunk2strength "[]" 0 "chunks sel"] obtain terms where
    t: "Boltzmann_terms ?T chunk2strength [] 0 (chunks sel) = Inr (terms, ?D)"
    and v: "\<forall>c \<in> set (chunks sel). map_of terms c = Some (?f c)"
    by auto
  have D: "0 < ?D"
    by (rule sum_list_pos_nonempty) (simp_all add: boltzmann_term_pos assms(1))
  then have Dn: "?D \<noteq> 0" by simp
  have p: "Boltzmann_probabilities terms ?D (chunks sel) = Inr ?ps"
    by (rule Boltzmann_probabilities_total [OF v Dn])
  have s: "sum_list ?ps = 1"
    using Dn by (simp add: sum_list_quotients)
  have pos: "\<forall>x \<in> set ?ps. 0 < x"
    using D by (simp add: boltzmann_term_pos)
  then have nneg: "\<not> (\<exists>x \<in> set ?ps. x < 0)"
    by (meson less_asym)
  have rc: "random_choice (chunks sel) ?ps = Inr (zip (chunks sel) ?ps)"
    unfolding random_choice_def using assms(1) s nneg by simp
  have call: "BoltzmannSelector_call sel chunk2strength
                = Inr (map (\<lambda>(choice, p). ({choice}, p)) (zip (chunks sel) ?ps))"
    by (simp add: BoltzmannSelector_call_def t p rc)
  have f: "map fst (map (\<lambda>(choice, p). ({choice}, p)) (zip (chunks sel) ?ps))
            = map (\<lambda>c. {c}) (chunks sel)"
    by (simp add: outcomes_zip comp_def)
  have g: "map snd (map (\<lambda>(choice, p). ({choice}, p)) (zip (chunks sel) ?ps)) = ?ps"
    by (simp add: outcomes_zip comp_def)
  show ?thesis
  proof (rule exI [of _ "map (\<lambda>(choice, p). ({choice}, p)) (zip (chunks sel) ?ps)"], intro conjI)
    show "BoltzmannSelector_call sel chunk2strength
            = Inr (map (\<lambda>(choice, p). ({choice}, p)) (zip (chunks sel) ?ps))"
      by (rule call)
    show "map fst (map (\<lambda>(choice, p). ({choice}, p)) (zip (chunks sel) ?ps))
            = map (\<lambda>c. {c}) (chunks sel)"
      by (rule f)
    show "map snd (map (\<lambda>(choice, p). ({choice}, p)) (zip (chunks sel) ?ps)) = ?ps"
      by (rule g)
    show "sum_list (map snd (map (\<lambda>(choice, p). ({choice}, p)) (zip (chunks sel) ?ps))) = 1"
      unfolding g by (rule s)
    show "\<forall>p \<in> set (map snd (map (\<lambda>(choice, p). ({choice}, p)) (zip (chunks sel) ?ps))). 0 < p"
      unfolding g by (rule pos)
  qed
qed

theorem BoltzmannSelector_call_spec_witness:
  "chunks test_selector \<noteq> [] \<and> 0 < temperature test_selector
   \<and> BoltzmannSelector_call test_selector [mock_chunk_1 \<mapsto> 0]
       = Inr [({mock_chunk_1}, 1 / 2), ({mock_chunk_2}, 1 / 2)]"
proof -
  have h1: "chunks test_selector \<noteq> []" and h2: "0 < temperature test_selector"
    by (simp_all add: test_selector_def)
  from BoltzmannSelector_call_spec [OF h1 h2, of "[mock_chunk_1 \<mapsto> 0]"]
  obtain outcomes where
    c: "BoltzmannSelector_call test_selector [mock_chunk_1 \<mapsto> 0] = Inr outcomes"
    and f: "map fst outcomes = map (\<lambda>c. {c}) (chunks test_selector)"
    and g: "map snd outcomes =
         map (\<lambda>c. boltzmann_term (temperature test_selector) [mock_chunk_1 \<mapsto> 0] c
                   / (\<Sum>c'\<leftarrow>chunks test_selector.
                        boltzmann_term (temperature test_selector) [mock_chunk_1 \<mapsto> 0] c'))
             (chunks test_selector)"
    by (elim exE conjE)
  have f': "map fst outcomes = [{mock_chunk_1}, {mock_chunk_2}]"
    using f by (simp add: test_selector_def)
  have g': "map snd outcomes = [1 / 2, 1 / 2]"
    using g
    by (simp add: test_selector_def boltzmann_term_def mock_chunk_1_def mock_chunk_2_def)
  have "outcomes = zip (map fst outcomes) (map snd outcomes)"
    by (simp add: zip_map_fst_snd)
  also have "\<dots> = [({mock_chunk_1}, 1 / 2), ({mock_chunk_2}, 1 / 2)]"
    unfolding f' g' by simp
  finally show ?thesis using c h1 h2 by simp
qed

section \<open>The test suite on the model\<close>

text \<open>
  The cases of \<^verbatim>\<open>tests/default/test_common.py\<close> for the two channels and the first
  case for \<^verbatim>\<open>compute_bla\<close>, evaluated on the definitions above: the values are the
  expected values of the tests.
\<close>

lemma test_TopDown_call:
  "TopDown_call (TopDown_init chunk1) [ChunkNode chunk1 \<mapsto> 1]
     = Inr [(FeatureNode white, 1), (FeatureNode square, 1)]"
  "TopDown_call (TopDown_init chunk1) [ChunkNode chunk1 \<mapsto> 1 / 2]
     = Inr [(FeatureNode white, 1 / 2), (FeatureNode square, 1 / 2)]"
  "TopDown_call (TopDown_init chunk2) [ChunkNode chunk2 \<mapsto> 1]
     = Inr [(FeatureNode black, 1 / 2), (FeatureNode white, 1 / 2), (FeatureNode square, 1)]"
  by (simp_all add: TopDown_call_def TopDown_init_def count_values_def fixture_defs)

lemma test_bottom_up:
  "BottomUp_call chunk1 sensory_input_1 = Inr [(ChunkNode chunk1, PyFloat (1 / 2 powr (11 / 10)))]"
  "BottomUp_call chunk1 sensory_input_2 = Inr [(ChunkNode chunk1, PyFloat (2 / 2 powr (11 / 10)))]"
  "BottomUp_call chunk2 sensory_input_1 = Inr [(ChunkNode chunk2, PyFloat (2 / 2 powr (11 / 10)))]"
  "BottomUp_call chunk2 sensory_input_3 = Inr [(ChunkNode chunk2, PyFloat (1 / 2 powr (11 / 10)))]"
  by (simp_all add: BottomUp_call_def BottomUp_step_def py_pow_11_10 fixture_defs)

lemma test_compute_bla:
  "compute_bla (bla_update 0 (BLA_init 0 2 (1 / 2) 0)) (3 / 2)
     = Inr (PyFloat (2 * (3 / 2) powr (- (1 / 2))))"
  by (simp add: compute_bla_def bla_update_def BLA_init_def py_pow_def py_sum_def)

end
